theory Spec2Isabelle
  imports Main "HOL-Library.Monad_Syntax"
begin

section \<open>Python strings and the character tables\<close>

text \<open>
  A Python \<open>str\<close> is a sequence of Unicode code points. A code point is a natural number,
  a string a list of them; \<open>py\<close> reads an ASCII literal.
\<close>

type_synonym pychar = nat
type_synonym pystr = "pychar list"

definition py :: "string \<Rightarrow> pystr" where
  "py s = map of_char s"

text \<open>
  \<open>str.strip()\<close> and the regular expression class \<open>\s\<close> use the interpreter's whitespace
  table, \<open>\d\<close> its table of decimal digits (category Nd). Both tables belong to the Python
  runtime, not to this repository, and grow with the Unicode version: they are parameters
  of the model. \<open>unicode_db_ok\<close> states what every version guarantees: the ASCII part of
  both tables, and that no character is both a digit and whitespace.
\<close>

record unicode_db =
  isdecimal :: "pychar \<Rightarrow> bool"
  isspace :: "pychar \<Rightarrow> bool"

definition ascii_digit :: "pychar \<Rightarrow> bool" where
  "ascii_digit c = (48 \<le> c \<and> c \<le> 57)"

definition ascii_space :: "pychar \<Rightarrow> bool" where
  "ascii_space c = ((9 \<le> c \<and> c \<le> 13) \<or> (28 \<le> c \<and> c \<le> 32))"

definition unicode_db_ok :: "unicode_db \<Rightarrow> bool" where
  "unicode_db_ok U =
     ((\<forall>c. c < 128 \<longrightarrow> isdecimal U c = ascii_digit c) \<and>
      (\<forall>c. c < 128 \<longrightarrow> isspace U c = ascii_space c) \<and>
      (\<forall>c. isdecimal U c \<longrightarrow> \<not> isspace U c))"

text \<open>The smallest table: ASCII only.\<close>

definition ascii_db :: unicode_db where
  "ascii_db = \<lparr>isdecimal = ascii_digit, isspace = ascii_space\<rparr>"

text \<open>\<open>s.strip()\<close>, \<open>s.rstrip(chars)\<close> and the format specification \<open>{s:c>w}\<close>.\<close>

definition strip :: "unicode_db \<Rightarrow> pystr \<Rightarrow> pystr" where
  "strip U s = rev (dropWhile (isspace U) (rev (dropWhile (isspace U) s)))"

definition rstrip_chars :: "pystr \<Rightarrow> pystr \<Rightarrow> pystr" where
  "rstrip_chars chars s = rev (dropWhile (\<lambda>c. c \<in> set chars) (rev s))"

definition rjust :: "nat \<Rightarrow> pychar \<Rightarrow> pystr \<Rightarrow> pystr" where
  "rjust w c s = replicate (w - length s) c @ s"

text \<open>\<open>'-->' in line\<close> and \<open>line.split('-->')\<close>: the occurrences are taken from the left
  and do not overlap.\<close>

definition arrow :: pystr where
  "arrow = [45, 45, 62]"

fun contains_arrow :: "pystr \<Rightarrow> bool" where
  "contains_arrow [] = False"
| "contains_arrow (c # cs) = (take 3 (c # cs) = arrow \<or> contains_arrow cs)"

fun split_arrow_from :: "pystr \<Rightarrow> pystr \<Rightarrow> pystr list" where
  "split_arrow_from cur [] = [rev cur]"
| "split_arrow_from cur (c # cs) =
     (if take 3 (c # cs) = arrow then rev cur # split_arrow_from [] (drop 3 (c # cs))
      else split_arrow_from (c # cur) cs)"

definition split_arrow :: "pystr \<Rightarrow> pystr list" where
  "split_arrow line = split_arrow_from [] line"

text \<open>\<open>str(n)\<close> for a line number.\<close>

function str_nat :: "nat \<Rightarrow> pystr" where
  "str_nat n = (if n < 10 then [48 + n] else str_nat (n div 10) @ [48 + n mod 10])"
  by pat_completeness auto
termination
  by (relation "measure id") auto

section \<open>The regular expressions of the source\<close>

text \<open>
  The patterns are matched the way Python's backtracking matcher does it: a greedy
  quantifier tries the longest repetition first and gives characters back when the rest
  of the pattern fails. \<open>re_digits U n\<close> is \<open>\d{n}\<close>, \<open>re_lit c\<close> a literal character,
  \<open>re_end\<close> the anchor \<open>$\<close>, which (without the MULTILINE flag) holds at the end of the string
  and also just before a newline that ends the string.
\<close>

definition re_digits :: "unicode_db \<Rightarrow> nat \<Rightarrow> pystr \<Rightarrow> (pystr \<times> pystr) option" where
  "re_digits U n s =
     (if n \<le> length s \<and> list_all (isdecimal U) (take n s) then Some (take n s, drop n s)
      else None)"

definition re_lit :: "pychar \<Rightarrow> pystr \<Rightarrow> pystr option" where
  "re_lit c s = (case s of [] \<Rightarrow> None | x # xs \<Rightarrow> if x = c then Some xs else None)"

definition re_end :: "pystr \<Rightarrow> bool" where
  "re_end s = (s = [] \<or> s = [10])"

text \<open>\<open>full_pattern = r'^(\d{2}):(\d{2}):(\d{2}),(\d{3})$'\<close> under \<open>re.match\<close>: the groups, or None.\<close>

definition match_full_pattern ::
  "unicode_db \<Rightarrow> pystr \<Rightarrow> (pystr \<times> pystr \<times> pystr \<times> pystr) option" where
  "match_full_pattern U s = do {
     (hours, r) \<leftarrow> re_digits U 2 s;
     r \<leftarrow> re_lit 58 r;
     (minutes, r) \<leftarrow> re_digits U 2 r;
     r \<leftarrow> re_lit 58 r;
     (seconds, r) \<leftarrow> re_digits U 2 r;
     r \<leftarrow> re_lit 44 r;
     (milliseconds, r) \<leftarrow> re_digits U 3 r;
     if re_end r then Some (hours, minutes, seconds, milliseconds) else None
   }"

text \<open>\<open>short_pattern = r'^(\d{1,2}):(\d{2}),(\d{3})$'\<close> under \<open>re.match\<close>. \<open>\d{1,2}\<close> is
  greedy: two digits are tried first, then one.\<close>

definition match_short_with :: "unicode_db \<Rightarrow> nat \<Rightarrow> pystr \<Rightarrow> (pystr \<times> pystr \<times> pystr) option" where
  "match_short_with U n s = do {
     (minutes, r) \<leftarrow> re_digits U n s;
     r \<leftarrow> re_lit 58 r;
     (seconds, r) \<leftarrow> re_digits U 2 r;
     r \<leftarrow> re_lit 44 r;
     (milliseconds, r) \<leftarrow> re_digits U 3 r;
     if re_end r then Some (minutes, seconds, milliseconds) else None
   }"

definition match_short_pattern :: "unicode_db \<Rightarrow> pystr \<Rightarrow> (pystr \<times> pystr \<times> pystr) option" where
  "match_short_pattern U s =
     (case match_short_with U 2 s of Some g \<Rightarrow> Some g | None \<Rightarrow> match_short_with U 1 s)"

text \<open>
  The pattern of a line without arrow, \<open>\d{1,2}:\d{2},\d{3}\s+\d{1,2}:\d{2},\d{3}\<close>, and
  \<open>timestamp_pattern\<close>, the same expression with a group around each token, both under
  \<open>re.search\<close>. \<open>re_token\<close> lists the ways one token matches at the head of a string, each
  with the rest of the string, in the order the matcher tries them; \<open>re_spaces\<close> does the
  same for \<open>\s+\<close>; \<open>pair_at\<close> lists the matches of the whole expression at the head of a
  string. The matcher returns the first match at the first position that has one.
\<close>

definition re_token_with :: "unicode_db \<Rightarrow> nat \<Rightarrow> pystr \<Rightarrow> (pystr \<times> pystr) option" where
  "re_token_with U n s = do {
     (minutes, r) \<leftarrow> re_digits U n s;
     r \<leftarrow> re_lit 58 r;
     (seconds, r) \<leftarrow> re_digits U 2 r;
     r \<leftarrow> re_lit 44 r;
     (milliseconds, r) \<leftarrow> re_digits U 3 r;
     Some (minutes @ [58] @ seconds @ [44] @ milliseconds, r)
   }"

definition re_token :: "unicode_db \<Rightarrow> pystr \<Rightarrow> (pystr \<times> pystr) list" where
  "re_token U s = List.map_filter (\<lambda>n. re_token_with U n s) [2, 1]"

definition re_spaces :: "unicode_db \<Rightarrow> pystr \<Rightarrow> pystr list" where
  "re_spaces U s = map (\<lambda>k. drop k s) (rev [1 ..< Suc (length (takeWhile (isspace U) s))])"

definition pair_at :: "unicode_db \<Rightarrow> pystr \<Rightarrow> (pystr \<times> pystr) list" where
  "pair_at U s =
     [(left, right). (left, r1) \<leftarrow> re_token U s, r2 \<leftarrow> re_spaces U r1,
                     (right, r3) \<leftarrow> re_token U r2]"

fun search_pair_pattern :: "unicode_db \<Rightarrow> pystr \<Rightarrow> bool" where
  "search_pair_pattern U [] = (pair_at U [] \<noteq> [])"
| "search_pair_pattern U (c # cs) = (pair_at U (c # cs) \<noteq> [] \<or> search_pair_pattern U cs)"

fun search_timestamp_pattern :: "unicode_db \<Rightarrow> pystr \<Rightarrow> (pystr \<times> pystr) option" where
  "search_timestamp_pattern U [] = (case pair_at U [] of g # _ \<Rightarrow> Some g | [] \<Rightarrow> None)"
| "search_timestamp_pattern U (c # cs) =
     (case pair_at U (c # cs) of g # _ \<Rightarrow> Some g | [] \<Rightarrow> search_timestamp_pattern U cs)"

section \<open>The command-line script: \<open>convert_to_srt.py\<close>\<close>

datatype format = HH_MM_SS_mmm | MM_SS_mmm | unknown

definition format_name :: "format \<Rightarrow> pystr" where
  "format_name f = (case f of HH_MM_SS_mmm \<Rightarrow> py ''HH:MM:SS,mmm''
                            | MM_SS_mmm \<Rightarrow> py ''MM:SS,mmm''
                            | unknown \<Rightarrow> py ''unknown'')"

record timestamp_analysis =
  original :: pystr
  is_valid_srt :: bool
  has_hours :: bool
  format_detected :: format
  ts_needs_fixing :: bool
  cleaned :: pystr

definition analyze_timestamp_format :: "unicode_db \<Rightarrow> pystr \<Rightarrow> timestamp_analysis" where
  "analyze_timestamp_format U timestamp =
     (let clean_timestamp = strip U timestamp in
      if match_full_pattern U clean_timestamp \<noteq> None then
        \<lparr>original = timestamp, is_valid_srt = True, has_hours = True,
         format_detected = HH_MM_SS_mmm, ts_needs_fixing = False, cleaned = clean_timestamp\<rparr>
      else if match_short_pattern U clean_timestamp \<noteq> None then
        \<lparr>original = timestamp, is_valid_srt = False, has_hours = False,
         format_detected = MM_SS_mmm, ts_needs_fixing = True, cleaned = clean_timestamp\<rparr>
      else
        \<lparr>original = timestamp, is_valid_srt = False, has_hours = False,
         format_detected = unknown, ts_needs_fixing = True, cleaned = clean_timestamp\<rparr>)"

definition fix_timestamp_format :: "unicode_db \<Rightarrow> pystr \<Rightarrow> pystr" where
  "fix_timestamp_format U timestamp =
     (let clean_timestamp = strip U timestamp in
      case match_short_pattern U clean_timestamp of
        Some (minutes, seconds, milliseconds) \<Rightarrow>
          py ''00:'' @ rjust 2 48 minutes @ py '':'' @ seconds @ py '','' @ milliseconds
      | None \<Rightarrow> clean_timestamp)"

record line_analysis =
  original_line :: pystr
  is_timestamp_line :: bool
  has_arrow :: bool
  left_timestamp :: "pystr option"
  right_timestamp :: "pystr option"
  left_analysis :: "timestamp_analysis option"
  right_analysis :: "timestamp_analysis option"
  needs_fixing :: bool
  fixed_line :: "pystr option"

definition find_and_analyze_timestamp_line :: "unicode_db \<Rightarrow> pystr \<Rightarrow> line_analysis" where
  "find_and_analyze_timestamp_line U line =
     (let result = \<lparr>original_line = line, is_timestamp_line = False, has_arrow = False,
                     left_timestamp = None, right_timestamp = None,
                     left_analysis = None, right_analysis = None,
                     needs_fixing = False, fixed_line = None\<rparr>
      in
      if contains_arrow line then
        (let result = result\<lparr>has_arrow := True, is_timestamp_line := True\<rparr>;
             parts = split_arrow line
         in
         if length parts = 2 then
           (let left_part = strip U (parts ! 0);
                right_part = strip U (parts ! 1);
                left_a = analyze_timestamp_format U left_part;
                right_a = analyze_timestamp_format U right_part;
                result = result\<lparr>left_timestamp := Some left_part,
                                 right_timestamp := Some right_part,
                                 left_analysis := Some left_a,
                                 right_analysis := Some right_a\<rparr>
            in
            if ts_needs_fixing left_a \<or> ts_needs_fixing right_a then
              (let fixed_left = fix_timestamp_format U left_part;
                   fixed_right = fix_timestamp_format U right_part
               in result\<lparr>needs_fixing := True,
                          fixed_line := Some (fixed_left @ py '' --> '' @ fixed_right)\<rparr>)
            else result)
         else result)
      else if search_pair_pattern U line then
        (let result = result\<lparr>is_timestamp_line := True, has_arrow := False,
                              needs_fixing := True\<rparr>
         in
         case search_timestamp_pattern U line of
           Some (left_part, right_part) \<Rightarrow>
             (let fixed_left = fix_timestamp_format U left_part;
                  fixed_right = fix_timestamp_format U right_part
              in result\<lparr>left_timestamp := Some left_part,
                         right_timestamp := Some right_part,
                         left_analysis := Some (analyze_timestamp_format U left_part),
                         right_analysis := Some (analyze_timestamp_format U right_part),
                         fixed_line := Some (fixed_left @ py '' --> '' @ fixed_right)\<rparr>)
         | None \<Rightarrow> result)
      else result)"

subsection \<open>The file pass\<close>

text \<open>
  The loop of \<open>process_srt_file\<close> over the lines that \<open>readlines\<close> returned. Reading and
  writing the files is left out. The one operation of the loop that can raise is
  \<open>analysis['fixed_line'] + '\n'\<close>, a TypeError when the fixed line is None; the \<open>except\<close>
  clause of \<open>process_srt_file\<close> turns any exception into the result None.
\<close>

datatype py_error = TypeError | ValueError | IndexError

record stats =
  total_lines :: nat
  timestamp_lines_found :: nat
  timestamp_lines_fixed :: nat
  issues_found :: "pystr list"
  fixes_applied :: "pystr list"

definition issue_description :: "unicode_db \<Rightarrow> nat \<Rightarrow> line_analysis \<Rightarrow> pystr" where
  "issue_description U line_num analysis =
     py ''Line '' @ str_nat line_num @ py '': '' @ [39] @ strip U (original_line analysis) @ [39]
     @ (if \<not> has_arrow analysis then py '' (missing arrow)'' else [])
     @ (case left_analysis analysis of
          Some a \<Rightarrow> if ts_needs_fixing a
                    then py '' (left timestamp: '' @ format_name (format_detected a) @ py '')''
                    else []
        | None \<Rightarrow> [])
     @ (case right_analysis analysis of
          Some a \<Rightarrow> if ts_needs_fixing a
                    then py '' (right timestamp: '' @ format_name (format_detected a) @ py '')''
                    else []
        | None \<Rightarrow> [])"

definition fix_description :: "nat \<Rightarrow> line_analysis \<Rightarrow> pystr" where
  "fix_description line_num analysis =
     py ''Line '' @ str_nat line_num @ py '': Fixed to '' @ [39]
     @ (case fixed_line analysis of Some f \<Rightarrow> f | None \<Rightarrow> py ''None'') @ [39]"

definition process_line ::
  "unicode_db \<Rightarrow> nat \<Rightarrow> pystr \<Rightarrow> stats \<times> pystr list \<Rightarrow> py_error + stats \<times> pystr list" where
  "process_line U line_num line acc =
     (case acc of (stats, processed_lines) \<Rightarrow>
      let analysis = find_and_analyze_timestamp_line U (rstrip_chars [10, 13] line) in
      if is_timestamp_line analysis then
        (let stats = stats\<lparr>timestamp_lines_found := timestamp_lines_found stats + 1\<rparr> in
         if needs_fixing analysis then
           (let stats = stats\<lparr>timestamp_lines_fixed := timestamp_lines_fixed stats + 1\<rparr>;
                stats = stats\<lparr>issues_found :=
                          issues_found stats @ [issue_description U line_num analysis]\<rparr>;
                stats = stats\<lparr>fixes_applied :=
                          fixes_applied stats @ [fix_description line_num analysis]\<rparr>
            in
            case fixed_line analysis of
              None \<Rightarrow> Inl TypeError
            | Some f \<Rightarrow> Inr (stats, processed_lines @ [f @ [10]]))
         else Inr (stats, processed_lines @ [line]))
      else Inr (stats, processed_lines @ [line]))"

fun process_loop ::
  "unicode_db \<Rightarrow> nat \<Rightarrow> pystr list \<Rightarrow> stats \<times> pystr list \<Rightarrow> py_error + stats \<times> pystr list" where
  "process_loop U line_num [] acc = Inr acc"
| "process_loop U line_num (line # lines) acc =
     (case process_line U line_num line acc of
        Inl e \<Rightarrow> Inl e
      | Inr acc' \<Rightarrow> process_loop U (Suc line_num) lines acc')"

definition process_srt_lines :: "unicode_db \<Rightarrow> pystr list \<Rightarrow> py_error + stats \<times> pystr list" where
  "process_srt_lines U lines =
     process_loop U 1 lines
       (\<lparr>total_lines = length lines, timestamp_lines_found = 0, timestamp_lines_fixed = 0,
         issues_found = [], fixes_applied = []\<rparr>, [])"

section \<open>The other front-ends\<close>

text \<open>
  The two desktop programs and the web server each carry their own copy of the three
  functions, as methods of a class; none of them reads \<open>self\<close>.
\<close>

subsection \<open>\<open>srt_fixer_gui.py\<close>\<close>

definition gui_analyze_timestamp_format :: "unicode_db \<Rightarrow> pystr \<Rightarrow> timestamp_analysis" where
  "gui_analyze_timestamp_format U timestamp =
     (let clean_timestamp = strip U timestamp in
      if match_full_pattern U clean_timestamp \<noteq> None then
        \<lparr>original = timestamp, is_valid_srt = True, has_hours = True,
         format_detected = HH_MM_SS_mmm, ts_needs_fixing = False, cleaned = clean_timestamp\<rparr>
      else if match_short_pattern U clean_timestamp \<noteq> None then
        \<lparr>original = timestamp, is_valid_srt = False, has_hours = False,
         format_detected = MM_SS_mmm, ts_needs_fixing = True, cleaned = clean_timestamp\<rparr>
      else
        \<lparr>original = timestamp, is_valid_srt = False, has_hours = False,
         format_detected = unknown, ts_needs_fixing = True, cleaned = clean_timestamp\<rparr>)"

definition gui_fix_timestamp_format :: "unicode_db \<Rightarrow> pystr \<Rightarrow> pystr" where
  "gui_fix_timestamp_format U timestamp =
     (let clean_timestamp = strip U timestamp in
      case match_short_pattern U clean_timestamp of
        Some (minutes, seconds, milliseconds) \<Rightarrow>
          py ''00:'' @ rjust 2 48 minutes @ py '':'' @ seconds @ py '','' @ milliseconds
      | None \<Rightarrow> clean_timestamp)"

definition gui_find_and_analyze_timestamp_line :: "unicode_db \<Rightarrow> pystr \<Rightarrow> line_analysis" where
  "gui_find_and_analyze_timestamp_line U line =
     (let result = \<lparr>original_line = line, is_timestamp_line = False, has_arrow = False,
                     left_timestamp = None, right_timestamp = None,
                     left_analysis = None, right_analysis = None,
                     needs_fixing = False, fixed_line = None\<rparr>
      in
      if contains_arrow line then
        (let result = result\<lparr>has_arrow := True, is_timestamp_line := True\<rparr>;
             parts = split_arrow line
         in
         if length parts = 2 then
           (let left_part = strip U (parts ! 0);
                right_part = strip U (parts ! 1);
                left_a = gui_analyze_timestamp_format U left_part;
                right_a = gui_analyze_timestamp_format U right_part;
                result = result\<lparr>left_timestamp := Some left_part,
                                 right_timestamp := Some right_part,
                                 left_analysis := Some left_a,
                                 right_analysis := Some right_a\<rparr>
            in
            if ts_needs_fixing left_a \<or> ts_needs_fixing right_a then
              (let fixed_left = gui_fix_timestamp_format U left_part;
                   fixed_right = gui_fix_timestamp_format U right_part
               in result\<lparr>needs_fixing := True,
                          fixed_line := Some (fixed_left @ py '' --> '' @ fixed_right)\<rparr>)
            else result)
         else result)
      else if search_pair_pattern U line then
        (let result = result\<lparr>is_timestamp_line := True, has_arrow := False,
                              needs_fixing := True\<rparr>
         in
         case search_timestamp_pattern U line of
           Some (left_part, right_part) \<Rightarrow>
             (let fixed_left = gui_fix_timestamp_format U left_part;
                  fixed_right = gui_fix_timestamp_format U right_part
              in result\<lparr>left_timestamp := Some left_part,
                         right_timestamp := Some right_part,
                         left_analysis := Some (gui_analyze_timestamp_format U left_part),
                         right_analysis := Some (gui_analyze_timestamp_format U right_part),
                         fixed_line := Some (fixed_left @ py '' --> '' @ fixed_right)\<rparr>)
         | None \<Rightarrow> result)
      else result)"

subsection \<open>\<open>srt_fixer_modern.py\<close>\<close>

definition modern_analyze_timestamp_format :: "unicode_db \<Rightarrow> pystr \<Rightarrow> timestamp_analysis" where
  "modern_analyze_timestamp_format U timestamp =
     (let clean_timestamp = strip U timestamp in
      if match_full_pattern U clean_timestamp \<noteq> None then
        \<lparr>original = timestamp, is_valid_srt = True, has_hours = True,
         format_detected = HH_MM_SS_mmm, ts_needs_fixing = False, cleaned = clean_timestamp\<rparr>
      else if match_short_pattern U clean_timestamp \<noteq> None then
        \<lparr>original = timestamp, is_valid_srt = False, has_hours = False,
         format_detected = MM_SS_mmm, ts_needs_fixing = True, cleaned = clean_timestamp\<rparr>
      else
        \<lparr>original = timestamp, is_valid_srt = False, has_hours = False,
         format_detected = unknown, ts_needs_fixing = True, cleaned = clean_timestamp\<rparr>)"

definition modern_fix_timestamp_format :: "unicode_db \<Rightarrow> pystr \<Rightarrow> pystr" where
  "modern_fix_timestamp_format U timestamp =
     (let clean_timestamp = strip U timestamp in
      case match_short_pattern U clean_timestamp of
        Some (minutes, seconds, milliseconds) \<Rightarrow>
          py ''00:'' @ rjust 2 48 minutes @ py '':'' @ seconds @ py '','' @ milliseconds
      | None \<Rightarrow> clean_timestamp)"

definition modern_find_and_analyze_timestamp_line :: "unicode_db \<Rightarrow> pystr \<Rightarrow> line_analysis" where
  "modern_find_and_analyze_timestamp_line U line =
     (let result = \<lparr>original_line = line, is_timestamp_line = False, has_arrow = False,
                     left_timestamp = None, right_timestamp = None,
                     left_analysis = None, right_analysis = None,
                     needs_fixing = False, fixed_line = None\<rparr>
      in
      if contains_arrow line then
        (let result = result\<lparr>has_arrow := True, is_timestamp_line := True\<rparr>;
             parts = split_arrow line
         in
         if length parts = 2 then
           (let left_part = strip U (parts ! 0);
                right_part = strip U (parts ! 1);
                left_a = modern_analyze_timestamp_format U left_part;
                right_a = modern_analyze_timestamp_format U right_part;
                result = result\<lparr>left_timestamp := Some left_part,
                                 right_timestamp := Some right_part,
                                 left_analysis := Some left_a,
                                 right_analysis := Some right_a\<rparr>
            in
            if ts_needs_fixing left_a \<or> ts_needs_fixing right_a then
              (let fixed_left = modern_fix_timestamp_format U left_part;
                   fixed_right = modern_fix_timestamp_format U right_part
               in result\<lparr>needs_fixing := True,
                          fixed_line := Some (fixed_left @ py '' --> '' @ fixed_right)\<rparr>)
            else result)
         else result)
      else if search_pair_pattern U line then
        (let result = result\<lparr>is_timestamp_line := True, has_arrow := False,
                              needs_fixing := True\<rparr>
         in
         case search_timestamp_pattern U line of
           Some (left_part, right_part) \<Rightarrow>
             (let fixed_left = modern_fix_timestamp_format U left_part;
                  fixed_right = modern_fix_timestamp_format U right_part
              in result\<lparr>left_timestamp := Some left_part,
                         right_timestamp := Some right_part,
                         left_analysis := Some (modern_analyze_timestamp_format U left_part),
                         right_analysis := Some (modern_analyze_timestamp_format U right_part),
                         fixed_line := Some (fixed_left @ py '' --> '' @ fixed_right)\<rparr>)
         | None \<Rightarrow> result)
      else result)"

subsection \<open>\<open>srt_fixer_web.py\<close>, class \<open>SRTProcessor\<close>\<close>

definition web_analyze_timestamp_format :: "unicode_db \<Rightarrow> pystr \<Rightarrow> timestamp_analysis" where
  "web_analyze_timestamp_format U timestamp =
     (let clean_timestamp = strip U timestamp in
      if match_full_pattern U clean_timestamp \<noteq> None then
        \<lparr>original = timestamp, is_valid_srt = True, has_hours = True,
         format_detected = HH_MM_SS_mmm, ts_needs_fixing = False, cleaned = clean_timestamp\<rparr>
      else if match_short_pattern U clean_timestamp \<noteq> None then
        \<lparr>original = timestamp, is_valid_srt = False, has_hours = False,
         format_detected = MM_SS_mmm, ts_needs_fixing = True, cleaned = clean_timestamp\<rparr>
      else
        \<lparr>original = timestamp, is_valid_srt = False, has_hours = False,
         format_detected = unknown, ts_needs_fixing = True, cleaned = clean_timestamp\<rparr>)"

definition web_fix_timestamp_format :: "unicode_db \<Rightarrow> pystr \<Rightarrow> pystr" where
  "web_fix_timestamp_format U timestamp =
     (let clean_timestamp = strip U timestamp in
      case match_short_pattern U clean_timestamp of
        Some (minutes, seconds, milliseconds) \<Rightarrow>
          py ''00:'' @ rjust 2 48 minutes @ py '':'' @ seconds @ py '','' @ milliseconds
      | None \<Rightarrow> clean_timestamp)"

definition web_find_and_analyze_timestamp_line :: "unicode_db \<Rightarrow> pystr \<Rightarrow> line_analysis" where
  "web_find_and_analyze_timestamp_line U line =
     (let result = \<lparr>original_line = line, is_timestamp_line = False, has_arrow = False,
                     left_timestamp = None, right_timestamp = None,
                     left_analysis = None, right_analysis = None,
                     needs_fixing = False, fixed_line = None\<rparr>
      in
      if contains_arrow line then
        (let result = result\<lparr>has_arrow := True, is_timestamp_line := True\<rparr>;
             parts = split_arrow line
         in
         if length parts = 2 then
           (let left_part = strip U (parts ! 0);
                right_part = strip U (parts ! 1);
                left_a = web_analyze_timestamp_format U left_part;
                right_a = web_analyze_timestamp_format U right_part;
                result = result\<lparr>left_timestamp := Some left_part,
                                 right_timestamp := Some right_part,
                                 left_analysis := Some left_a,
                                 right_analysis := Some right_a\<rparr>
            in
            if ts_needs_fixing left_a \<or> ts_needs_fixing right_a then
              (let fixed_left = web_fix_timestamp_format U left_part;
                   fixed_right = web_fix_timestamp_format U right_part
               in result\<lparr>needs_fixing := True,
                          fixed_line := Some (fixed_left @ py '' --> '' @ fixed_right)\<rparr>)
            else result)
         else result)
      else if search_pair_pattern U line then
        (let result = result\<lparr>is_timestamp_line := True, has_arrow := False,
                              needs_fixing := True\<rparr>
         in
         case search_timestamp_pattern U line of
           Some (left_part, right_part) \<Rightarrow>
             (let fixed_left = web_fix_timestamp_format U left_part;
                  fixed_right = web_fix_timestamp_format U right_part
              in result\<lparr>left_timestamp := Some left_part,
                         right_timestamp := Some right_part,
                         left_analysis := Some (web_analyze_timestamp_format U left_part),
                         right_analysis := Some (web_analyze_timestamp_format U right_part),
                         fixed_line := Some (fixed_left @ py '' --> '' @ fixed_right)\<rparr>)
         | None \<Rightarrow> result)
      else result)"

subsection \<open>The demonstration script: \<open>step_by_step_fixer.py\<close>\<close>

text \<open>\<open>content.split('\n')\<close> and \<open>'\n'.join(lines)\<close>.\<close>

fun split_newline_from :: "pystr \<Rightarrow> pystr \<Rightarrow> pystr list" where
  "split_newline_from cur [] = [rev cur]"
| "split_newline_from cur (c # cs) =
     (if c = 10 then rev cur # split_newline_from [] cs else split_newline_from (c # cur) cs)"

definition split_newline :: "pystr \<Rightarrow> pystr list" where
  "split_newline content = split_newline_from [] content"

fun join_newline :: "pystr list \<Rightarrow> pystr" where
  "join_newline [] = []"
| "join_newline [x] = x"
| "join_newline (x # y # ys) = x @ [10] @ join_newline (y # ys)"

definition step1_find_arrow_lines :: "unicode_db \<Rightarrow> pystr \<Rightarrow> (nat \<times> pystr) list" where
  "step1_find_arrow_lines U content =
     [(i + 1, strip U line). (i, line) \<leftarrow> enumerate 0 (split_newline content),
                             contains_arrow line]"

record single_analysis =
  sa_format :: format
  sa_valid :: bool
  sa_needs_fixing :: bool
  sa_has_hours :: bool

definition analyze_single_timestamp :: "unicode_db \<Rightarrow> pystr \<Rightarrow> single_analysis" where
  "analyze_single_timestamp U timestamp =
     (let timestamp = strip U timestamp in
      if match_full_pattern U timestamp \<noteq> None then
        \<lparr>sa_format = HH_MM_SS_mmm, sa_valid = True, sa_needs_fixing = False,
         sa_has_hours = True\<rparr>
      else if match_short_pattern U timestamp \<noteq> None then
        \<lparr>sa_format = MM_SS_mmm, sa_valid = False, sa_needs_fixing = True,
         sa_has_hours = False\<rparr>
      else
        \<lparr>sa_format = unknown, sa_valid = False, sa_needs_fixing = True,
         sa_has_hours = False\<rparr>)"

definition fix_single_timestamp :: "unicode_db \<Rightarrow> pystr \<Rightarrow> pystr" where
  "fix_single_timestamp U timestamp =
     (let timestamp = strip U timestamp in
      case match_short_pattern U timestamp of
        Some (minutes, seconds, milliseconds) \<Rightarrow>
          py ''00:'' @ rjust 2 48 minutes @ py '':'' @ seconds @ py '','' @ milliseconds
      | None \<Rightarrow> timestamp)"

record analyzed_line =
  a_line_num :: nat
  a_original :: pystr
  a_left_timestamp :: pystr
  a_right_timestamp :: pystr
  a_left_analysis :: single_analysis
  a_right_analysis :: single_analysis

text \<open>The body of the loop of \<open>step2_analyze_timestamps\<close>: unpacking
  \<open>left_part, right_part = line.split('-->')\<close> raises ValueError unless the split gives
  two parts.\<close>

definition step2_analyze_line ::
  "unicode_db \<Rightarrow> nat \<times> pystr \<Rightarrow> py_error + analyzed_line option" where
  "step2_analyze_line U item =
     (case item of (num, line) \<Rightarrow>
      if contains_arrow line then
        (let parts = split_arrow line in
         if length parts = 2 then
           (let left_ts = strip U (parts ! 0);
                right_ts = strip U (parts ! 1)
            in Inr (Some \<lparr>a_line_num = num, a_original = line,
                           a_left_timestamp = left_ts,
                           a_right_timestamp = right_ts,
                           a_left_analysis = analyze_single_timestamp U left_ts,
                           a_right_analysis = analyze_single_timestamp U right_ts\<rparr>))
         else Inl ValueError)
      else Inr None)"

fun step2_analyze_timestamps ::
  "unicode_db \<Rightarrow> (nat \<times> pystr) list \<Rightarrow> py_error + analyzed_line list" where
  "step2_analyze_timestamps U [] = Inr []"
| "step2_analyze_timestamps U (item # items) =
     (case step2_analyze_line U item of
        Inl e \<Rightarrow> Inl e
      | Inr a \<Rightarrow>
          (case step2_analyze_timestamps U items of
             Inl e \<Rightarrow> Inl e
           | Inr analyzed \<Rightarrow> Inr ((case a of None \<Rightarrow> [] | Some x \<Rightarrow> [x]) @ analyzed)))"

record fixed_item =
  f_line_num :: nat
  f_original :: pystr
  f_fixed :: pystr

definition step3_fix_line :: "unicode_db \<Rightarrow> analyzed_line \<Rightarrow> fixed_item" where
  "step3_fix_line U item =
     (let fixed_left = (if sa_needs_fixing (a_left_analysis item)
                        then fix_single_timestamp U (a_left_timestamp item)
                        else a_left_timestamp item);
          fixed_right = (if sa_needs_fixing (a_right_analysis item)
                         then fix_single_timestamp U (a_right_timestamp item)
                         else a_right_timestamp item)
      in \<lparr>f_line_num = a_line_num item, f_original = a_original item,
          f_fixed = fixed_left @ py '' --> '' @ fixed_right\<rparr>)"

definition step3_fix_timestamps :: "unicode_db \<Rightarrow> analyzed_line list \<Rightarrow> fixed_item list" where
  "step3_fix_timestamps U analyzed = map (step3_fix_line U) analyzed"

text \<open>
  The body of the loop of \<open>step4_apply_fixes\<close>. \<open>line_index\<close> is a Python integer: it is
  \<open>-1\<close> for line number \<open>0\<close>, and a negative index counts from the end of the list, or
  raises IndexError when the list is empty.
\<close>

definition step4_apply_fix ::
  "unicode_db \<Rightarrow> pystr list \<Rightarrow> fixed_item \<Rightarrow> py_error + pystr list" where
  "step4_apply_fix U lines fx =
     (let line_index = int (f_line_num fx) - 1 in
      if line_index < int (length lines) then
        (let i = (if line_index < 0 then line_index + int (length lines) else line_index) in
         if i < 0 then Inl IndexError
         else if strip U (lines ! nat i) = f_original fx
         then Inr (lines[nat i := f_fixed fx])
         else Inr lines)
      else Inr lines)"

fun step4_loop :: "unicode_db \<Rightarrow> pystr list \<Rightarrow> fixed_item list \<Rightarrow> py_error + pystr list" where
  "step4_loop U lines [] = Inr lines"
| "step4_loop U lines (fx # fixes) =
     (case step4_apply_fix U lines fx of
        Inl e \<Rightarrow> Inl e
      | Inr lines' \<Rightarrow> step4_loop U lines' fixes)"

definition step4_apply_fixes ::
  "unicode_db \<Rightarrow> pystr \<Rightarrow> fixed_item list \<Rightarrow> py_error + pystr" where
  "step4_apply_fixes U content fixes =
     (case step4_loop U (split_newline content) fixes of
        Inl e \<Rightarrow> Inl e
      | Inr lines \<Rightarrow> Inr (join_newline lines))"

text \<open>\<open>main\<close> without the files: from the content read to the content written.\<close>

definition step_by_step :: "unicode_db \<Rightarrow> pystr \<Rightarrow> py_error + pystr" where
  "step_by_step U content =
     (case step2_analyze_timestamps U (step1_find_arrow_lines U content) of
        Inl e \<Rightarrow> Inl e
      | Inr analyzed \<Rightarrow> step4_apply_fixes U content (step3_fix_timestamps U analyzed))"

section \<open>The formats in the words of the specification\<close>

text \<open>
  \<open>full_shape\<close>: exactly two digits, a colon, two digits, a colon, two digits, a comma,
  exactly three digits. \<open>short_shape\<close>: one or two digits, a colon, exactly two digits, a
  comma, exactly three digits. \<open>full_fields\<close> and \<open>short_fields\<close> name the parts.
\<close>

fun full_shape :: "unicode_db \<Rightarrow> pystr \<Rightarrow> bool" where
  "full_shape U [h1, h2, c1, m1, m2, c2, s1, s2, c3, f1, f2, f3] =
     (isdecimal U h1 \<and> isdecimal U h2 \<and> c1 = 58 \<and>
      isdecimal U m1 \<and> isdecimal U m2 \<and> c2 = 58 \<and>
      isdecimal U s1 \<and> isdecimal U s2 \<and> c3 = 44 \<and>
      isdecimal U f1 \<and> isdecimal U f2 \<and> isdecimal U f3)"
| "full_shape U _ = False"

fun short_shape :: "unicode_db \<Rightarrow> pystr \<Rightarrow> bool" where
  "short_shape U [m1, c1, s1, s2, c2, f1, f2, f3] =
     (isdecimal U m1 \<and> c1 = 58 \<and>
      isdecimal U s1 \<and> isdecimal U s2 \<and> c2 = 44 \<and>
      isdecimal U f1 \<and> isdecimal U f2 \<and> isdecimal U f3)"
| "short_shape U [m1, m2, c1, s1, s2, c2, f1, f2, f3] =
     (isdecimal U m1 \<and> isdecimal U m2 \<and> c1 = 58 \<and>
      isdecimal U s1 \<and> isdecimal U s2 \<and> c2 = 44 \<and>
      isdecimal U f1 \<and> isdecimal U f2 \<and> isdecimal U f3)"
| "short_shape U _ = False"

definition full_fields ::
  "unicode_db \<Rightarrow> pystr \<Rightarrow> pystr \<Rightarrow> pystr \<Rightarrow> pystr \<Rightarrow> pystr \<Rightarrow> bool" where
  "full_fields U s h m ss ms =
     (s = h @ [58] @ m @ [58] @ ss @ [44] @ ms \<and>
      length h = 2 \<and> length m = 2 \<and> length ss = 2 \<and> length ms = 3 \<and>
      list_all (isdecimal U) (h @ m @ ss @ ms))"

definition short_fields :: "unicode_db \<Rightarrow> pystr \<Rightarrow> pystr \<Rightarrow> pystr \<Rightarrow> pystr \<Rightarrow> bool" where
  "short_fields U s m ss ms =
     (s = m @ [58] @ ss @ [44] @ ms \<and>
      (length m = 1 \<or> length m = 2) \<and> length ss = 2 \<and> length ms = 3 \<and>
      list_all (isdecimal U) (m @ ss @ ms))"

section \<open>Notions used to state the properties\<close>

text \<open>The line that the loop of the file pass appends for one input line, when the
  analysis carries a fixed line and when it does not.\<close>

definition emitted_line :: "unicode_db \<Rightarrow> pystr \<Rightarrow> pystr" where
  "emitted_line U raw =
     (case fixed_line (find_and_analyze_timestamp_line U (rstrip_chars [10, 13] raw)) of
        Some f \<Rightarrow> f @ [10]
      | None \<Rightarrow> raw)"

text \<open>A line already in the full format on both sides of one arrow.\<close>

definition full_line :: "unicode_db \<Rightarrow> pystr \<Rightarrow> bool" where
  "full_line U line =
     (length (split_arrow line) = 2 \<and>
      full_shape U (strip U (split_arrow line ! 0)) \<and>
      full_shape U (strip U (split_arrow line ! 1)))"

text \<open>An occurrence in a line of two tokens of the hour-missing shape with whitespace,
  and nothing else, between them: \<open>pre\<close> is what precedes the left token, \<open>post\<close> what
  follows the right one.\<close>

definition token_pair_at ::
  "unicode_db \<Rightarrow> pystr \<Rightarrow> pystr \<Rightarrow> pystr \<Rightarrow> pystr \<Rightarrow> pystr \<Rightarrow> pystr \<Rightarrow> bool" where
  "token_pair_at U line pre l ws r post =
     (line = pre @ l @ ws @ r @ post \<and> short_shape U l \<and>
      ws \<noteq> [] \<and> list_all (isspace U) ws \<and> short_shape U r)"

section \<open>Properties\<close>

subsection \<open>The character tables\<close>

lemma ascii_db_ok: "unicode_db_ok ascii_db"
  by (auto simp: unicode_db_ok_def ascii_db_def ascii_digit_def ascii_space_def)

lemma ok_space_nl: "unicode_db_ok U \<Longrightarrow> isspace U 10"
  by (simp add: unicode_db_ok_def ascii_space_def)

lemma ok_colon_not_digit: "unicode_db_ok U \<Longrightarrow> \<not> isdecimal U 58"
  by (simp add: unicode_db_ok_def ascii_digit_def)

lemma ok_digit_not_space: "unicode_db_ok U \<Longrightarrow> isdecimal U c \<Longrightarrow> \<not> isspace U c"
  by (simp add: unicode_db_ok_def)

lemma ok_zero: "unicode_db_ok U \<Longrightarrow> isdecimal U 48"
  by (simp add: unicode_db_ok_def ascii_digit_def)

subsection \<open>Lists of a given length\<close>

lemma length1_conv: "(length xs = Suc 0) = (\<exists>a. xs = [a])"
  by (cases xs) auto

lemma length2_conv: "(length xs = 2) = (\<exists>a b. xs = [a, b])"
  by (auto simp: numeral_2_eq_2 length_Suc_conv)

lemma length3_conv: "(length xs = 3) = (\<exists>a b c. xs = [a, b, c])"
  by (auto simp: numeral_3_eq_3 length_Suc_conv)

subsection \<open>What the patterns match\<close>

lemma re_digits_Some:
  "(re_digits U n s = Some (d, r)) = (s = d @ r \<and> length d = n \<and> list_all (isdecimal U) d)"
  by (auto simp: re_digits_def)

lemma re_digits_append:
  "length d = n \<Longrightarrow> list_all (isdecimal U) d \<Longrightarrow> re_digits U n (d @ r) = Some (d, r)"
  by (simp add: re_digits_def)

lemma re_lit_Some: "(re_lit c s = Some r) = (s = c # r)"
  by (cases s) (auto simp: re_lit_def)

lemma re_lit_Cons: "re_lit c (c # r) = Some r"
  by (simp add: re_lit_def)

lemma match_full_SomeD:
  "match_full_pattern U s = Some (h, m, ss, ms) \<Longrightarrow>
     \<exists>t. s = h @ [58] @ m @ [58] @ ss @ [44] @ ms @ t \<and> re_end t \<and>
         full_fields U (h @ [58] @ m @ [58] @ ss @ [44] @ ms) h m ss ms"
  unfolding match_full_pattern_def full_fields_def
  by (auto simp: bind_eq_Some_conv re_digits_Some re_lit_Some split: if_splits)

lemma match_full_SomeI:
  "full_fields U c h m ss ms \<Longrightarrow> re_end t \<Longrightarrow>
     match_full_pattern U (c @ t) = Some (h, m, ss, ms)"
  unfolding match_full_pattern_def full_fields_def
  by (simp add: re_digits_append re_lit_Cons)

lemma match_short_withD:
  "match_short_with U n s = Some (m, ss, ms) \<Longrightarrow>
     \<exists>t. s = m @ [58] @ ss @ [44] @ ms @ t \<and> re_end t \<and> length m = n \<and>
         length ss = 2 \<and> length ms = 3 \<and> list_all (isdecimal U) (m @ ss @ ms)"
  unfolding match_short_with_def
  by (auto simp: bind_eq_Some_conv re_digits_Some re_lit_Some split: if_splits)

lemma match_short_withI:
  "length m = n \<Longrightarrow> length ss = 2 \<Longrightarrow> length ms = 3 \<Longrightarrow>
   list_all (isdecimal U) (m @ ss @ ms) \<Longrightarrow> re_end t \<Longrightarrow>
     match_short_with U n (m @ [58] @ ss @ [44] @ ms @ t) = Some (m, ss, ms)"
  unfolding match_short_with_def
  by (simp add: re_digits_append re_lit_Cons)

lemma match_short_SomeD:
  assumes "match_short_pattern U s = Some (m, ss, ms)"
  shows "\<exists>t. s = m @ [58] @ ss @ [44] @ ms @ t \<and> re_end t \<and>
             (length m = 1 \<or> length m = 2) \<and> length ss = 2 \<and> length ms = 3 \<and>
             list_all (isdecimal U) (m @ ss @ ms)"
proof -
  from assms obtain n where "match_short_with U n s = Some (m, ss, ms)" and "n = 1 \<or> n = 2"
    by (auto simp: match_short_pattern_def split: option.splits)
  from match_short_withD [OF this(1)] this(2) show ?thesis by auto
qed

lemma full_shape_fields: "full_shape U s = (\<exists>h m ss ms. full_fields U s h m ss ms)"
proof
  assume a: "full_shape U s"
  then show "\<exists>h m ss ms. full_fields U s h m ss ms"
  proof (cases "(U, s)" rule: full_shape.cases)
    case (1 U' h1 h2 c1 m1 m2 c2 s1 s2 c3 f1 f2 f3)
    with a have "full_fields U s [h1, h2] [m1, m2] [s1, s2] [f1, f2, f3]"
      by (simp add: full_fields_def)
    then show ?thesis by blast
  qed simp_all
next
  assume "\<exists>h m ss ms. full_fields U s h m ss ms"
  then show "full_shape U s"
    by (auto simp: full_fields_def length2_conv length3_conv)
qed

lemma short_shape_fields: "short_shape U s = (\<exists>m ss ms. short_fields U s m ss ms)"
proof
  assume a: "short_shape U s"
  then show "\<exists>m ss ms. short_fields U s m ss ms"
  proof (cases "(U, s)" rule: short_shape.cases)
    case (1 U' m1 c1 s1 s2 c2 f1 f2 f3)
    with a have "short_fields U s [m1] [s1, s2] [f1, f2, f3]"
      by (simp add: short_fields_def)
    then show ?thesis by blast
  next
    case (2 U' m1 m2 c1 s1 s2 c2 f1 f2 f3)
    with a have "short_fields U s [m1, m2] [s1, s2] [f1, f2, f3]"
      by (simp add: short_fields_def)
    then show ?thesis by blast
  qed simp_all
next
  assume "\<exists>m ss ms. short_fields U s m ss ms"
  then show "short_shape U s"
    by (auto simp: short_fields_def length1_conv length2_conv length3_conv)
qed

lemma match_short_fields:
  assumes ok: "unicode_db_ok U" and f: "short_fields U c m ss ms"
  shows "match_short_pattern U c = Some (m, ss, ms)"
proof -
  from f have c: "c = m @ [58] @ ss @ [44] @ ms @ []"
    and len: "length m = 1 \<or> length m = 2" "length ss = 2" "length ms = 3"
    and dig: "list_all (isdecimal U) (m @ ss @ ms)"
    by (simp_all add: short_fields_def)
  have e: "re_end []" by (simp add: re_end_def)
  from len(1) show ?thesis
  proof
    assume l: "length m = 2"
    from match_short_withI [OF l len(2,3) dig e] show ?thesis
      by (simp add: match_short_pattern_def c)
  next
    assume l: "length m = 1"
    have "match_short_with U 2 c = None"
    proof (rule ccontr)
      assume "match_short_with U 2 c \<noteq> None"
      then obtain m' ss' ms' where "match_short_with U 2 c = Some (m', ss', ms')" by auto
      from match_short_withD [OF this] obtain t where
        "c = m' @ [58] @ ss' @ [44] @ ms' @ t" "length m' = 2" "list_all (isdecimal U) m'"
        by auto
      with c l have "isdecimal U 58"
        by (auto simp: length1_conv length2_conv)
      with ok show False by (simp add: ok_colon_not_digit)
    qed
    moreover from match_short_withI [OF l len(2,3) dig e]
    have "match_short_with U 1 c = Some (m, ss, ms)" by (simp add: c)
    ultimately show ?thesis by (simp add: match_short_pattern_def)
  qed
qed

subsection \<open>strip\<close>

lemma strip_Nil [simp]: "strip U [] = []"
  by (simp add: strip_def)

lemma strip_id:
  assumes "s \<noteq> []" "\<not> isspace U (hd s)" "\<not> isspace U (last s)"
  shows "strip U s = s"
proof -
  have "dropWhile (isspace U) s = s"
    using assms by (simp add: dropWhile_eq_self_iff)
  moreover have "dropWhile (isspace U) (rev s) = rev s"
    using assms by (simp add: dropWhile_eq_self_iff hd_rev)
  ultimately show ?thesis by (simp add: strip_def)
qed

lemma strip_ends:
  assumes "strip U s \<noteq> []"
  shows "\<not> isspace U (hd (strip U s)) \<and> \<not> isspace U (last (strip U s))"
proof -
  let ?d = "dropWhile (isspace U) s"
  let ?e = "dropWhile (isspace U) (rev ?d)"
  from assms have e: "?e \<noteq> []" by (simp add: strip_def)
  have d: "?d \<noteq> []"
  proof
    assume "?d = []"
    with e show False by simp
  qed
  have hd_d: "\<not> isspace U (hd ?d)" using d by (rule hd_dropWhile)
  have hd_e: "\<not> isspace U (hd ?e)" using e by (rule hd_dropWhile)
  have "rev ?d = butlast (rev ?d) @ [hd ?d]"
    using d by (metis append_butlast_last_id last_rev rev_is_Nil_conv)
  then have "?e = dropWhile (isspace U) (butlast (rev ?d)) @ [hd ?d]"
    using hd_d by (metis dropWhile_append3)
  then have "last ?e = hd ?d" by (metis last_snoc)
  then have "hd (rev ?e) = hd ?d" using e by (simp add: hd_rev)
  moreover have "last (rev ?e) = hd ?e" using e by (simp add: last_rev)
  ultimately show ?thesis using hd_d hd_e by (simp add: strip_def)
qed

lemma strip_idem [simp]: "strip U (strip U s) = strip U s"
proof (cases "strip U s = []")
  case True
  then show ?thesis by simp
next
  case False
  then show ?thesis using strip_ends [OF False] by (simp add: strip_id)
qed

lemma strip_no_nl: "unicode_db_ok U \<Longrightarrow> strip U s \<noteq> c @ [10]"
  using strip_ends [of U s] ok_space_nl [of U] by (metis last_snoc snoc_eq_iff_butlast)

lemma re_end_strip: "unicode_db_ok U \<Longrightarrow> strip U s = c @ t \<Longrightarrow> re_end t \<Longrightarrow> t = []"
  using strip_no_nl [of U s c] by (auto simp: re_end_def)

lemma match_full_strip:
  assumes "unicode_db_ok U"
  shows "(match_full_pattern U (strip U s) \<noteq> None) = full_shape U (strip U s)"
proof
  assume "match_full_pattern U (strip U s) \<noteq> None"
  then obtain h m ss ms where "match_full_pattern U (strip U s) = Some (h, m, ss, ms)"
    by auto
  from match_full_SomeD [OF this] obtain t where
    t: "strip U s = (h @ [58] @ m @ [58] @ ss @ [44] @ ms) @ t" "re_end t"
    and f: "full_fields U (h @ [58] @ m @ [58] @ ss @ [44] @ ms) h m ss ms"
    by auto
  from re_end_strip [OF assms t] have "t = []" .
  with t f have "full_fields U (strip U s) h m ss ms" by simp
  then show "full_shape U (strip U s)" unfolding full_shape_fields by blast
next
  assume "full_shape U (strip U s)"
  then obtain h m ss ms where "full_fields U (strip U s) h m ss ms"
    unfolding full_shape_fields by blast
  from match_full_SomeI [OF this, of "[]"] show "match_full_pattern U (strip U s) \<noteq> None"
    by (simp add: re_end_def)
qed

lemma match_short_strip:
  assumes "unicode_db_ok U"
  shows "(match_short_pattern U (strip U s) \<noteq> None) = short_shape U (strip U s)"
proof
  assume "match_short_pattern U (strip U s) \<noteq> None"
  then obtain m ss ms where "match_short_pattern U (strip U s) = Some (m, ss, ms)"
    by auto
  from match_short_SomeD [OF this] obtain t where
    t: "strip U s = (m @ [58] @ ss @ [44] @ ms) @ t" "re_end t"
    and f: "length m = 1 \<or> length m = 2" "length ss = 2" "length ms = 3"
       "list_all (isdecimal U) (m @ ss @ ms)"
    by auto
  from re_end_strip [OF assms t] have "t = []" .
  with t f have "short_fields U (strip U s) m ss ms" by (simp add: short_fields_def)
  then show "short_shape U (strip U s)" unfolding short_shape_fields by blast
next
  assume "short_shape U (strip U s)"
  then obtain m ss ms where "short_fields U (strip U s) m ss ms"
    unfolding short_shape_fields by blast
  from match_short_fields [OF assms this] show "match_short_pattern U (strip U s) \<noteq> None"
    by simp
qed

subsection \<open>The classifier and the repair\<close>

text \<open>
  C1. For every string, \<open>analyze_timestamp_format\<close> trims it and decides in order: the
  trimmed value has the full shape, then the format is \<open>HH:MM:SS,mmm\<close> and nothing needs
  fixing; else it has the hour-missing shape, then the format is \<open>MM:SS,mmm\<close> and it needs
  fixing; otherwise the format is \<open>unknown\<close> and it needs fixing.
\<close>

theorem analyze_timestamp_format_cases:
  assumes "unicode_db_ok U"
  shows "cleaned (analyze_timestamp_format U ts) = strip U ts \<and>
         (full_shape U (strip U ts) \<longrightarrow>
            format_detected (analyze_timestamp_format U ts) = HH_MM_SS_mmm \<and>
            \<not> ts_needs_fixing (analyze_timestamp_format U ts)) \<and>
         (\<not> full_shape U (strip U ts) \<and> short_shape U (strip U ts) \<longrightarrow>
            format_detected (analyze_timestamp_format U ts) = MM_SS_mmm \<and>
            ts_needs_fixing (analyze_timestamp_format U ts)) \<and>
         (\<not> full_shape U (strip U ts) \<and> \<not> short_shape U (strip U ts) \<longrightarrow>
            format_detected (analyze_timestamp_format U ts) = unknown \<and>
            ts_needs_fixing (analyze_timestamp_format U ts))"
  using match_full_strip [OF assms, of ts] match_short_strip [OF assms, of ts]
  by (simp add: analyze_timestamp_format_def Let_def)

theorem analyze_timestamp_format_cases_witness:
  "unicode_db_ok ascii_db \<and>
   full_shape ascii_db (strip ascii_db (py '' 00:01:02,345'')) \<and>
   format_detected (analyze_timestamp_format ascii_db (py '' 00:01:02,345'')) = HH_MM_SS_mmm \<and>
   \<not> ts_needs_fixing (analyze_timestamp_format ascii_db (py '' 00:01:02,345'')) \<and>
   \<not> full_shape ascii_db (strip ascii_db (py ''1:02,345 '')) \<and>
   short_shape ascii_db (strip ascii_db (py ''1:02,345 '')) \<and>
   format_detected (analyze_timestamp_format ascii_db (py ''1:02,345 '')) = MM_SS_mmm \<and>
   ts_needs_fixing (analyze_timestamp_format ascii_db (py ''1:02,345 '')) \<and>
   \<not> full_shape ascii_db (strip ascii_db (py ''1:2,345'')) \<and>
   \<not> short_shape ascii_db (strip ascii_db (py ''1:2,345'')) \<and>
   format_detected (analyze_timestamp_format ascii_db (py ''1:2,345'')) = unknown \<and>
   ts_needs_fixing (analyze_timestamp_format ascii_db (py ''1:2,345''))"
proof -
  have a: "full_shape ascii_db (strip ascii_db (py '' 00:01:02,345''))"
    by code_simp
  have b: "\<not> full_shape ascii_db (strip ascii_db (py ''1:02,345 '')) \<and>
           short_shape ascii_db (strip ascii_db (py ''1:02,345 ''))"
    by code_simp
  have c: "\<not> full_shape ascii_db (strip ascii_db (py ''1:2,345'')) \<and>
           \<not> short_shape ascii_db (strip ascii_db (py ''1:2,345''))"
    by code_simp
  show ?thesis
    using a b c ascii_db_ok
      analyze_timestamp_format_cases [OF ascii_db_ok, of "py '' 00:01:02,345''"]
      analyze_timestamp_format_cases [OF ascii_db_ok, of "py ''1:02,345 ''"]
      analyze_timestamp_format_cases [OF ascii_db_ok, of "py ''1:2,345''"]
    by simp
qed

text \<open>
  C2. For every string, \<open>fix_timestamp_format\<close> trims it; when the trimmed value has the
  hour-missing shape, with minutes \<open>m\<close>, seconds \<open>ss\<close> and milliseconds \<open>ms\<close>, the result is
  \<open>00:\<close>, the minutes padded on the left with a zero to two digits, a colon, the seconds, a
  comma and the milliseconds as they were; for every other string the result is the
  trimmed value.
\<close>

theorem fix_timestamp_format_cases:
  assumes "unicode_db_ok U"
  shows "(\<forall>m ss ms. short_fields U (strip U ts) m ss ms \<longrightarrow>
            fix_timestamp_format U ts =
              py ''00:'' @ (if length m = 1 then py ''0'' @ m else m) @ py '':'' @ ss
              @ py '','' @ ms) \<and>
         (short_shape U (strip U ts) \<longrightarrow> (\<exists>m ss ms. short_fields U (strip U ts) m ss ms)) \<and>
         (\<not> short_shape U (strip U ts) \<longrightarrow> fix_timestamp_format U ts = strip U ts)"
proof (intro conjI allI impI)
  fix m ss ms
  assume f: "short_fields U (strip U ts) m ss ms"
  then have "length m = 1 \<or> length m = 2" by (simp add: short_fields_def)
  then have "rjust 2 48 m = (if length m = 1 then py ''0'' @ m else m)"
    by (auto simp: rjust_def py_def)
  with match_short_fields [OF assms f]
  show "fix_timestamp_format U ts =
          py ''00:'' @ (if length m = 1 then py ''0'' @ m else m) @ py '':'' @ ss
          @ py '','' @ ms"
    by (simp add: fix_timestamp_format_def)
next
  assume "short_shape U (strip U ts)"
  then show "\<exists>m ss ms. short_fields U (strip U ts) m ss ms"
    by (simp add: short_shape_fields)
next
  assume "\<not> short_shape U (strip U ts)"
  with match_short_strip [OF assms, of ts]
  have "match_short_pattern U (strip U ts) = None" by blast
  then show "fix_timestamp_format U ts = strip U ts"
    by (simp add: fix_timestamp_format_def)
qed

theorem fix_timestamp_format_cases_witness:
  "unicode_db_ok ascii_db \<and>
   short_fields ascii_db (strip ascii_db (py '' 1:23,456'')) (py ''1'') (py ''23'') (py ''456'') \<and>
   fix_timestamp_format ascii_db (py '' 1:23,456'') = py ''00:01:23,456'' \<and>
   short_fields ascii_db (strip ascii_db (py ''12:34,567'')) (py ''12'') (py ''34'') (py ''567'') \<and>
   fix_timestamp_format ascii_db (py ''12:34,567'') = py ''00:12:34,567'' \<and>
   \<not> short_shape ascii_db (strip ascii_db (py ''12:34:56,789 '')) \<and>
   fix_timestamp_format ascii_db (py ''12:34:56,789 '') = py ''12:34:56,789''"
proof -
  have a: "short_fields ascii_db (strip ascii_db (py '' 1:23,456''))
             (py ''1'') (py ''23'') (py ''456'')"
    by code_simp
  have b: "short_fields ascii_db (strip ascii_db (py ''12:34,567''))
             (py ''12'') (py ''34'') (py ''567'')"
    by code_simp
  have c: "\<not> short_shape ascii_db (strip ascii_db (py ''12:34:56,789 ''))"
    by code_simp
  have d: "strip ascii_db (py ''12:34:56,789 '') = py ''12:34:56,789''"
    by code_simp
  have e: "py ''00:'' @ py ''0'' @ py ''1'' @ py '':'' @ py ''23'' @ py '','' @ py ''456''
             = py ''00:01:23,456''"
          "py ''00:'' @ py ''12'' @ py '':'' @ py ''34'' @ py '','' @ py ''567''
             = py ''00:12:34,567''"
          "length (py ''1'') = 1" "length (py ''12'') \<noteq> 1"
    by (simp_all add: py_def)
  show ?thesis
    using a b c d e ascii_db_ok
      fix_timestamp_format_cases [OF ascii_db_ok, of "py '' 1:23,456''"]
      fix_timestamp_format_cases [OF ascii_db_ok, of "py ''12:34,567''"]
      fix_timestamp_format_cases [OF ascii_db_ok, of "py ''12:34:56,789 ''"]
    by (simp del: append_Cons append_Nil)
qed

text \<open>C7. \<open>fix_timestamp_format\<close> is idempotent.\<close>

theorem fix_timestamp_format_idem:
  assumes ok: "unicode_db_ok U"
  shows "fix_timestamp_format U (fix_timestamp_format U s) = fix_timestamp_format U s"
proof (cases "match_short_pattern U (strip U s)")
  case None
  then show ?thesis by (simp add: fix_timestamp_format_def)
next
  case (Some g)
  obtain m ss ms where g: "g = (m, ss, ms)" by (cases g) auto
  let ?R = "py ''00:'' @ rjust 2 48 m @ py '':'' @ ss @ py '','' @ ms"
  from Some g have R: "fix_timestamp_format U s = ?R"
    by (simp add: fix_timestamp_format_def)
  from match_short_SomeD [OF Some [unfolded g]]
  have len: "length m = 1 \<or> length m = 2" "length ss = 2" "length ms = 3"
    and dig: "list_all (isdecimal U) ms"
    by auto
  from len have lenR: "length ?R = 12" by (auto simp: rjust_def py_def)
  have "ms \<noteq> []" using len by auto
  then have "last ?R = last ms" by simp
  moreover have "isdecimal U (last ms)"
    using dig \<open>ms \<noteq> []\<close> by (simp add: list_all_iff)
  ultimately have l: "\<not> isspace U (last ?R)" using ok by (simp add: ok_digit_not_space)
  have h: "\<not> isspace U (hd ?R)"
    using ok ok_digit_not_space [OF ok ok_zero [OF ok]] by (simp add: py_def)
  have ne: "?R \<noteq> []" by (simp add: py_def)
  have sR: "strip U ?R = ?R" using ne h l by (rule strip_id)
  have "match_short_pattern U ?R = None"
  proof (rule ccontr)
    assume "match_short_pattern U ?R \<noteq> None"
    then obtain m' ss' ms' where "match_short_pattern U ?R = Some (m', ss', ms')" by auto
    from match_short_SomeD [OF this] obtain t where
      "?R = m' @ [58] @ ss' @ [44] @ ms' @ t" "re_end t"
      "length m' = 1 \<or> length m' = 2" "length ss' = 2" "length ms' = 3"
      by auto
    then have "length ?R = length m' + length t + 7" and "length t \<le> 1"
      and "length m' \<le> 2"
      by (auto simp: re_end_def simp del: append_assoc)
    then have "length ?R \<le> 10" by linarith
    with lenR show False by simp
  qed
  with sR R show ?thesis by (simp add: fix_timestamp_format_def)
qed

theorem fix_timestamp_format_idem_witness:
  "unicode_db_ok ascii_db \<and>
   fix_timestamp_format ascii_db (fix_timestamp_format ascii_db (py '' 1:23,456 ''))
     = fix_timestamp_format ascii_db (py '' 1:23,456 '') \<and>
   fix_timestamp_format ascii_db (py '' 1:23,456 '') = py ''00:01:23,456''"
proof -
  have "fix_timestamp_format ascii_db (py '' 1:23,456 '') = py ''00:01:23,456''"
    by code_simp
  then show ?thesis
    using ascii_db_ok fix_timestamp_format_idem [OF ascii_db_ok, of "py '' 1:23,456 ''"]
    by simp
qed

subsection \<open>The line processor\<close>

lemma ok_space_ascii: "unicode_db_ok U \<Longrightarrow> c < 128 \<Longrightarrow> isspace U c = ascii_space c"
  by (simp add: unicode_db_ok_def)

lemma ok_digit_ascii: "unicode_db_ok U \<Longrightarrow> c < 128 \<Longrightarrow> isdecimal U c = ascii_digit c"
  by (simp add: unicode_db_ok_def)

lemma search_pair_iff:
  "search_pair_pattern U line = (search_timestamp_pattern U line \<noteq> None)"
  by (induction line) (auto split: list.splits)

lemma analyze_needs_fixing:
  "ts_needs_fixing (analyze_timestamp_format U ts) = (match_full_pattern U (strip U ts) = None)"
  by (cases "match_full_pattern U (strip U ts)")
     (auto simp: analyze_timestamp_format_def Let_def)

lemma find_arrow_two:
  assumes "contains_arrow line" "split_arrow line = [l, r]"
  shows "find_and_analyze_timestamp_line U line =
     \<lparr>original_line = line, is_timestamp_line = True, has_arrow = True,
      left_timestamp = Some (strip U l), right_timestamp = Some (strip U r),
      left_analysis = Some (analyze_timestamp_format U (strip U l)),
      right_analysis = Some (analyze_timestamp_format U (strip U r)),
      needs_fixing = (ts_needs_fixing (analyze_timestamp_format U (strip U l)) \<or>
                      ts_needs_fixing (analyze_timestamp_format U (strip U r))),
      fixed_line =
        (if ts_needs_fixing (analyze_timestamp_format U (strip U l)) \<or>
            ts_needs_fixing (analyze_timestamp_format U (strip U r))
         then Some (fix_timestamp_format U (strip U l) @ py '' --> ''
                    @ fix_timestamp_format U (strip U r))
         else None)\<rparr>"
  using assms by (simp add: find_and_analyze_timestamp_line_def Let_def)

lemma find_arrow_other:
  assumes "contains_arrow line" "length (split_arrow line) \<noteq> 2"
  shows "find_and_analyze_timestamp_line U line =
     \<lparr>original_line = line, is_timestamp_line = True, has_arrow = True,
      left_timestamp = None, right_timestamp = None,
      left_analysis = None, right_analysis = None,
      needs_fixing = False, fixed_line = None\<rparr>"
  using assms by (simp add: find_and_analyze_timestamp_line_def Let_def)

lemma find_pair:
  assumes "\<not> contains_arrow line" "search_timestamp_pattern U line = Some (l, r)"
  shows "find_and_analyze_timestamp_line U line =
     \<lparr>original_line = line, is_timestamp_line = True, has_arrow = False,
      left_timestamp = Some l, right_timestamp = Some r,
      left_analysis = Some (analyze_timestamp_format U l),
      right_analysis = Some (analyze_timestamp_format U r),
      needs_fixing = True,
      fixed_line = Some (fix_timestamp_format U l @ py '' --> '' @ fix_timestamp_format U r)\<rparr>"
  using assms by (simp add: find_and_analyze_timestamp_line_def Let_def search_pair_iff)

lemma find_none:
  assumes "\<not> contains_arrow line" "search_timestamp_pattern U line = None"
  shows "find_and_analyze_timestamp_line U line =
     \<lparr>original_line = line, is_timestamp_line = False, has_arrow = False,
      left_timestamp = None, right_timestamp = None,
      left_analysis = None, right_analysis = None,
      needs_fixing = False, fixed_line = None\<rparr>"
  using assms by (simp add: find_and_analyze_timestamp_line_def Let_def search_pair_iff)

lemma find_cases:
  obtains (two) l r where "contains_arrow line" "split_arrow line = [l, r]"
  | (other) "contains_arrow line" "length (split_arrow line) \<noteq> 2"
  | (pair) l r where "\<not> contains_arrow line" "search_timestamp_pattern U line = Some (l, r)"
  | (none) "\<not> contains_arrow line" "search_timestamp_pattern U line = None"
proof (cases "contains_arrow line")
  case True
  show ?thesis
  proof (cases "length (split_arrow line) = 2")
    case True
    then obtain l r where "split_arrow line = [l, r]" by (auto simp: length2_conv)
    with \<open>contains_arrow line\<close> show ?thesis by (rule two)
  next
    case False
    with \<open>contains_arrow line\<close> show ?thesis by (rule other)
  qed
next
  case False
  then show ?thesis
    by (cases "search_timestamp_pattern U line") (auto intro: pair none)
qed

lemma needs_fixing_fixed_line:
  "needs_fixing (find_and_analyze_timestamp_line U line) =
     (fixed_line (find_and_analyze_timestamp_line U line) \<noteq> None)"
  by (cases line rule: find_cases [where U = U])
     (simp_all add: find_arrow_two find_arrow_other find_pair find_none)

lemma needs_fixing_is_timestamp_line:
  "needs_fixing (find_and_analyze_timestamp_line U line) \<Longrightarrow>
     is_timestamp_line (find_and_analyze_timestamp_line U line)"
  by (cases line rule: find_cases [where U = U])
     (simp_all add: find_arrow_two find_arrow_other find_pair find_none)

subsection \<open>The file pass\<close>

lemma process_line_eq:
  "\<exists>st'. process_line U n raw (st, out) = Inr (st', out @ [emitted_line U raw]) \<and>
         total_lines st' = total_lines st \<and>
         timestamp_lines_found st' = timestamp_lines_found st +
           (if is_timestamp_line (find_and_analyze_timestamp_line U (rstrip_chars [10, 13] raw))
            then 1 else 0) \<and>
         timestamp_lines_fixed st' = timestamp_lines_fixed st +
           (if needs_fixing (find_and_analyze_timestamp_line U (rstrip_chars [10, 13] raw))
            then 1 else 0)"
proof -
  let ?A = "find_and_analyze_timestamp_line U (rstrip_chars [10, 13] raw)"
  show ?thesis
  proof (cases "needs_fixing ?A")
    case True
    then obtain f where f: "fixed_line ?A = Some f"
      by (auto simp: needs_fixing_fixed_line)
    from True have "is_timestamp_line ?A" by (rule needs_fixing_is_timestamp_line)
    with True f show ?thesis
      by (simp add: process_line_def emitted_line_def Let_def)
  next
    case False
    then have "fixed_line ?A = None" by (simp add: needs_fixing_fixed_line)
    with False show ?thesis
      by (simp add: process_line_def emitted_line_def Let_def)
  qed
qed

lemma process_loop_eq:
  "\<exists>st'. process_loop U n lines (st, out) = Inr (st', out @ map (emitted_line U) lines) \<and>
         total_lines st' = total_lines st \<and>
         timestamp_lines_found st' = timestamp_lines_found st +
           length (filter (\<lambda>raw. is_timestamp_line
             (find_and_analyze_timestamp_line U (rstrip_chars [10, 13] raw))) lines) \<and>
         timestamp_lines_fixed st' = timestamp_lines_fixed st +
           length (filter (\<lambda>raw. needs_fixing
             (find_and_analyze_timestamp_line U (rstrip_chars [10, 13] raw))) lines)"
proof (induction lines arbitrary: n st out)
  case Nil
  then show ?case by simp
next
  case (Cons raw lines)
  from process_line_eq [of U n raw st out] obtain st1 where
    1: "process_line U n raw (st, out) = Inr (st1, out @ [emitted_line U raw])"
    and c: "total_lines st1 = total_lines st"
      "timestamp_lines_found st1 = timestamp_lines_found st +
           (if is_timestamp_line (find_and_analyze_timestamp_line U (rstrip_chars [10, 13] raw))
            then 1 else 0)"
      "timestamp_lines_fixed st1 = timestamp_lines_fixed st +
           (if needs_fixing (find_and_analyze_timestamp_line U (rstrip_chars [10, 13] raw))
            then 1 else 0)"
    by blast
  from Cons.IH [of "Suc n" st1 "out @ [emitted_line U raw]"] obtain st2 where
    2: "process_loop U (Suc n) lines (st1, out @ [emitted_line U raw]) =
          Inr (st2, (out @ [emitted_line U raw]) @ map (emitted_line U) lines)"
    and d: "total_lines st2 = total_lines st1"
      "timestamp_lines_found st2 = timestamp_lines_found st1 +
           length (filter (\<lambda>raw. is_timestamp_line
             (find_and_analyze_timestamp_line U (rstrip_chars [10, 13] raw))) lines)"
      "timestamp_lines_fixed st2 = timestamp_lines_fixed st1 +
           length (filter (\<lambda>raw. needs_fixing
             (find_and_analyze_timestamp_line U (rstrip_chars [10, 13] raw))) lines)"
    by blast
  from 1 2 c d show ?case by simp
qed

lemma process_srt_lines_eq:
  "\<exists>st. process_srt_lines U lines = Inr (st, map (emitted_line U) lines) \<and>
        total_lines st = length lines \<and>
        timestamp_lines_found st =
           length (filter (\<lambda>raw. is_timestamp_line
             (find_and_analyze_timestamp_line U (rstrip_chars [10, 13] raw))) lines) \<and>
        timestamp_lines_fixed st =
           length (filter (\<lambda>raw. needs_fixing
             (find_and_analyze_timestamp_line U (rstrip_chars [10, 13] raw))) lines)"
  using process_loop_eq [of U 1 lines
      "\<lparr>total_lines = length lines, timestamp_lines_found = 0, timestamp_lines_fixed = 0,
        issues_found = [], fixes_applied = []\<rparr>" "[]"]
  by (simp add: process_srt_lines_def)

lemma split_arrow_from_no_arrow:
  "\<not> contains_arrow s \<Longrightarrow> split_arrow_from cur s = [rev cur @ s]"
  by (induction s arbitrary: cur) auto

lemma split_arrow_no_arrow: "\<not> contains_arrow s \<Longrightarrow> split_arrow s = [s]"
  by (simp add: split_arrow_def split_arrow_from_no_arrow)

lemma fix_last:
  assumes ok: "unicode_db_ok U" and ne: "fix_timestamp_format U y \<noteq> []"
  shows "\<not> isspace U (last (fix_timestamp_format U y))"
proof (cases "match_short_pattern U (strip U y)")
  case None
  with ne show ?thesis using strip_ends [of U y] by (simp add: fix_timestamp_format_def)
next
  case (Some g)
  obtain m ss ms where g: "g = (m, ss, ms)" by (cases g) auto
  from match_short_SomeD [OF Some [unfolded g]]
  have "length ms = 3" and dig: "list_all (isdecimal U) ms" by auto
  then have "ms \<noteq> []" by auto
  with dig have "isdecimal U (last ms)" by (simp add: list_all_iff)
  with ok have "\<not> isspace U (last ms)" by (simp add: ok_digit_not_space)
  with Some g \<open>ms \<noteq> []\<close> show ?thesis by (simp add: fix_timestamp_format_def)
qed

lemma ok_space_cr: "unicode_db_ok U \<Longrightarrow> isspace U 13"
  by (simp add: unicode_db_ok_def ascii_space_def)

lemma arrow_join_last:
  assumes ok: "unicode_db_ok U"
  shows "last (fix_timestamp_format U x @ py '' --> '' @ fix_timestamp_format U y) \<noteq> 10 \<and>
         last (fix_timestamp_format U x @ py '' --> '' @ fix_timestamp_format U y) \<noteq> 13"
proof (cases "fix_timestamp_format U y = []")
  case True
  then show ?thesis by (simp add: py_def)
next
  case False
  from fix_last [OF ok False] ok_space_nl [OF ok] ok_space_cr [OF ok] False
  show ?thesis by auto
qed

lemma fixed_line_last:
  assumes ok: "unicode_db_ok U"
    and f: "fixed_line (find_and_analyze_timestamp_line U line) = Some f"
  shows "f \<noteq> [] \<and> last f \<noteq> 10 \<and> last f \<noteq> 13"
proof (cases line rule: find_cases [where U = U])
  case (two l r)
  with f have "f = fix_timestamp_format U (strip U l) @ py '' --> ''
                   @ fix_timestamp_format U (strip U r)"
    by (simp add: find_arrow_two split: if_splits)
  with arrow_join_last [OF ok] show ?thesis by (simp add: py_def)
next
  case other
  with f show ?thesis by (simp add: find_arrow_other)
next
  case (pair l r)
  with f have "f = fix_timestamp_format U l @ py '' --> '' @ fix_timestamp_format U r"
    by (simp add: find_pair)
  with arrow_join_last [OF ok] show ?thesis by (simp add: py_def)
next
  case none
  with f show ?thesis by (simp add: find_none)
qed

text \<open>
  C3. For every line that contains the arrow and splits on it into exactly two parts,
  \<open>find_and_analyze_timestamp_line\<close> classifies both trimmed sides, needs fixing exactly
  when one of the two classifications does, and then carries the fixed line
  \<open>repair(left) + " --> " + repair(right)\<close>. For the line \<open>garbage --> nonsense\<close> both
  sides are \<open>unknown\<close>, the line needs fixing and the fixed line is the line itself.
\<close>

theorem arrow_line_analysis:
  assumes ok: "unicode_db_ok U"
    and "contains_arrow line" and "split_arrow line = [l, r]"
  shows "is_timestamp_line (find_and_analyze_timestamp_line U line) \<and>
         has_arrow (find_and_analyze_timestamp_line U line) \<and>
         left_timestamp (find_and_analyze_timestamp_line U line) = Some (strip U l) \<and>
         right_timestamp (find_and_analyze_timestamp_line U line) = Some (strip U r) \<and>
         left_analysis (find_and_analyze_timestamp_line U line)
           = Some (analyze_timestamp_format U (strip U l)) \<and>
         right_analysis (find_and_analyze_timestamp_line U line)
           = Some (analyze_timestamp_format U (strip U r)) \<and>
         needs_fixing (find_and_analyze_timestamp_line U line)
           = (ts_needs_fixing (analyze_timestamp_format U (strip U l)) \<or>
              ts_needs_fixing (analyze_timestamp_format U (strip U r))) \<and>
         (needs_fixing (find_and_analyze_timestamp_line U line) \<longrightarrow>
            fixed_line (find_and_analyze_timestamp_line U line)
              = Some (fix_timestamp_format U (strip U l) @ py '' --> ''
                      @ fix_timestamp_format U (strip U r))) \<and>
         map_option format_detected
           (left_analysis (find_and_analyze_timestamp_line U (py ''garbage --> nonsense'')))
           = Some unknown \<and>
         map_option format_detected
           (right_analysis (find_and_analyze_timestamp_line U (py ''garbage --> nonsense'')))
           = Some unknown \<and>
         needs_fixing (find_and_analyze_timestamp_line U (py ''garbage --> nonsense'')) \<and>
         fixed_line (find_and_analyze_timestamp_line U (py ''garbage --> nonsense''))
           = Some (py ''garbage --> nonsense'')"
proof -
  let ?G = "py ''garbage --> nonsense''"
  have c: "contains_arrow ?G" by code_simp
  have s: "split_arrow ?G = [py ''garbage '', py '' nonsense'']" by code_simp
  have l: "strip U (py ''garbage '') = py ''garbage''"
    by (simp add: strip_def py_def ok_space_ascii [OF ok] ascii_space_def)
  have r: "strip U (py '' nonsense'') = py ''nonsense''"
    by (simp add: strip_def py_def ok_space_ascii [OF ok] ascii_space_def)
  have l': "strip U (py ''garbage'') = py ''garbage''" using strip_idem [of U "py ''garbage ''"]
    by (simp only: l)
  have r': "strip U (py ''nonsense'') = py ''nonsense''" using strip_idem [of U "py '' nonsense''"]
    by (simp only: r)
  have "\<not> full_shape U (py ''garbage'')" "\<not> short_shape U (py ''garbage'')"
       "\<not> full_shape U (py ''nonsense'')" "\<not> short_shape U (py ''nonsense'')"
    by (simp_all add: py_def ok_digit_ascii [OF ok] ascii_digit_def)
  with match_full_strip [OF ok, of "py ''garbage''"] match_short_strip [OF ok, of "py ''garbage''"]
    match_full_strip [OF ok, of "py ''nonsense''"] match_short_strip [OF ok, of "py ''nonsense''"]
  have n: "match_full_pattern U (py ''garbage'') = None"
          "match_short_pattern U (py ''garbage'') = None"
          "match_full_pattern U (py ''nonsense'') = None"
          "match_short_pattern U (py ''nonsense'') = None"
    unfolding l' r' by blast+
  have a: "format_detected (analyze_timestamp_format U (py ''garbage'')) = unknown"
          "ts_needs_fixing (analyze_timestamp_format U (py ''garbage''))"
          "format_detected (analyze_timestamp_format U (py ''nonsense'')) = unknown"
    by (simp_all add: analyze_timestamp_format_def Let_def l' r' n)
  have f: "fix_timestamp_format U (py ''garbage'') = py ''garbage''"
          "fix_timestamp_format U (py ''nonsense'') = py ''nonsense''"
    by (simp_all add: fix_timestamp_format_def l' r' n)
  have e: "py ''garbage'' @ py '' --> '' @ py ''nonsense'' = ?G" by (simp add: py_def)
  show ?thesis
    using assms(2,3)
    by (simp add: find_arrow_two find_arrow_two [OF c s] l r a f e
             del: append_Cons append_Nil)
qed

theorem arrow_line_analysis_witness:
  "unicode_db_ok ascii_db \<and>
   contains_arrow (py ''01:30,500 --> 00:01:31,500'') \<and>
   split_arrow (py ''01:30,500 --> 00:01:31,500'') = [py ''01:30,500 '', py '' 00:01:31,500''] \<and>
   needs_fixing (find_and_analyze_timestamp_line ascii_db (py ''01:30,500 --> 00:01:31,500'')) \<and>
   fixed_line (find_and_analyze_timestamp_line ascii_db (py ''01:30,500 --> 00:01:31,500''))
     = Some (py ''00:01:30,500 --> 00:01:31,500'') \<and>
   fixed_line (find_and_analyze_timestamp_line ascii_db (py ''garbage --> nonsense''))
     = Some (py ''garbage --> nonsense'')"
proof -
  have c: "contains_arrow (py ''01:30,500 --> 00:01:31,500'')" by code_simp
  have s: "split_arrow (py ''01:30,500 --> 00:01:31,500'')
             = [py ''01:30,500 '', py '' 00:01:31,500'']"
    by code_simp
  have n: "ts_needs_fixing (analyze_timestamp_format ascii_db (strip ascii_db (py ''01:30,500 '')))"
    by code_simp
  have f: "fix_timestamp_format ascii_db (strip ascii_db (py ''01:30,500 '')) @ py '' --> ''
             @ fix_timestamp_format ascii_db (strip ascii_db (py '' 00:01:31,500''))
           = py ''00:01:30,500 --> 00:01:31,500''"
    by code_simp
  show ?thesis
    using c s n f ascii_db_ok arrow_line_analysis [OF ascii_db_ok c s]
    by simp
qed

text \<open>
  C5. A line that contains the arrow but does not split into exactly two parts is a
  timestamp line that needs no fixing and carries no timestamps. The file pass returns a
  result, never an error, for every list of lines: one output line for each input line,
  \<open>timestamp_lines_found\<close> the number of lines recognised as timestamp lines and
  \<open>timestamp_lines_fixed\<close> the number of lines that need fixing; every such malformed line
  is among the lines counted as found, not among those counted as fixed, and is emitted
  unchanged at its place in the output.
\<close>

theorem malformed_arrow_line:
  "(contains_arrow line \<and> length (split_arrow line) \<noteq> 2 \<longrightarrow>
      is_timestamp_line (find_and_analyze_timestamp_line U line) \<and>
      \<not> needs_fixing (find_and_analyze_timestamp_line U line) \<and>
      left_timestamp (find_and_analyze_timestamp_line U line) = None \<and>
      right_timestamp (find_and_analyze_timestamp_line U line) = None \<and>
      left_analysis (find_and_analyze_timestamp_line U line) = None \<and>
      right_analysis (find_and_analyze_timestamp_line U line) = None \<and>
      fixed_line (find_and_analyze_timestamp_line U line) = None) \<and>
   (contains_arrow (rstrip_chars [10, 13] raw) \<and>
    length (split_arrow (rstrip_chars [10, 13] raw)) \<noteq> 2 \<longrightarrow>
      process_line U n raw (st, out)
        = Inr (st\<lparr>timestamp_lines_found := timestamp_lines_found st + 1\<rparr>, out @ [raw])) \<and>
   (\<exists>st' out'.
      process_srt_lines U lines = Inr (st', out') \<and>
      length out' = length lines \<and>
      total_lines st' = length lines \<and>
      timestamp_lines_found st' =
        length (filter (\<lambda>x. is_timestamp_line
          (find_and_analyze_timestamp_line U (rstrip_chars [10, 13] x))) lines) \<and>
      timestamp_lines_fixed st' =
        length (filter (\<lambda>x. needs_fixing
          (find_and_analyze_timestamp_line U (rstrip_chars [10, 13] x))) lines) \<and>
      (\<forall>i<length lines.
         contains_arrow (rstrip_chars [10, 13] (lines ! i)) \<and>
         length (split_arrow (rstrip_chars [10, 13] (lines ! i))) \<noteq> 2 \<longrightarrow>
           is_timestamp_line
             (find_and_analyze_timestamp_line U (rstrip_chars [10, 13] (lines ! i))) \<and>
           \<not> needs_fixing
             (find_and_analyze_timestamp_line U (rstrip_chars [10, 13] (lines ! i))) \<and>
           out' ! i = lines ! i))"
proof -
  have 1: "contains_arrow line \<and> length (split_arrow line) \<noteq> 2 \<longrightarrow>
      is_timestamp_line (find_and_analyze_timestamp_line U line) \<and>
      \<not> needs_fixing (find_and_analyze_timestamp_line U line) \<and>
      left_timestamp (find_and_analyze_timestamp_line U line) = None \<and>
      right_timestamp (find_and_analyze_timestamp_line U line) = None \<and>
      left_analysis (find_and_analyze_timestamp_line U line) = None \<and>
      right_analysis (find_and_analyze_timestamp_line U line) = None \<and>
      fixed_line (find_and_analyze_timestamp_line U line) = None"
    by (simp add: find_arrow_other)
  have 2: "contains_arrow (rstrip_chars [10, 13] raw) \<and>
    length (split_arrow (rstrip_chars [10, 13] raw)) \<noteq> 2 \<longrightarrow>
      process_line U n raw (st, out)
        = Inr (st\<lparr>timestamp_lines_found := timestamp_lines_found st + 1\<rparr>, out @ [raw])"
    by (simp add: process_line_def find_arrow_other)
  from process_srt_lines_eq [of U lines] obtain st' where
    p: "process_srt_lines U lines = Inr (st', map (emitted_line U) lines)"
    and c: "total_lines st' = length lines"
      "timestamp_lines_found st' =
        length (filter (\<lambda>x. is_timestamp_line
          (find_and_analyze_timestamp_line U (rstrip_chars [10, 13] x))) lines)"
      "timestamp_lines_fixed st' =
        length (filter (\<lambda>x. needs_fixing
          (find_and_analyze_timestamp_line U (rstrip_chars [10, 13] x))) lines)"
    by blast
  have e: "\<forall>i<length lines.
         contains_arrow (rstrip_chars [10, 13] (lines ! i)) \<and>
         length (split_arrow (rstrip_chars [10, 13] (lines ! i))) \<noteq> 2 \<longrightarrow>
           is_timestamp_line
             (find_and_analyze_timestamp_line U (rstrip_chars [10, 13] (lines ! i))) \<and>
           \<not> needs_fixing
             (find_and_analyze_timestamp_line U (rstrip_chars [10, 13] (lines ! i))) \<and>
           map (emitted_line U) lines ! i = lines ! i"
    by (simp add: emitted_line_def find_arrow_other)
  from p c e have 3: "\<exists>st' out'.
      process_srt_lines U lines = Inr (st', out') \<and>
      length out' = length lines \<and>
      total_lines st' = length lines \<and>
      timestamp_lines_found st' =
        length (filter (\<lambda>x. is_timestamp_line
          (find_and_analyze_timestamp_line U (rstrip_chars [10, 13] x))) lines) \<and>
      timestamp_lines_fixed st' =
        length (filter (\<lambda>x. needs_fixing
          (find_and_analyze_timestamp_line U (rstrip_chars [10, 13] x))) lines) \<and>
      (\<forall>i<length lines.
         contains_arrow (rstrip_chars [10, 13] (lines ! i)) \<and>
         length (split_arrow (rstrip_chars [10, 13] (lines ! i))) \<noteq> 2 \<longrightarrow>
           is_timestamp_line
             (find_and_analyze_timestamp_line U (rstrip_chars [10, 13] (lines ! i))) \<and>
           \<not> needs_fixing
             (find_and_analyze_timestamp_line U (rstrip_chars [10, 13] (lines ! i))) \<and>
           out' ! i = lines ! i)"
    by (intro exI [of _ st'] exI [of _ "map (emitted_line U) lines"]) simp
  from 1 2 3 show ?thesis by (intro conjI)
qed

theorem malformed_arrow_line_witness:
  "contains_arrow (py ''a --> b --> c'') \<and>
   length (split_arrow (py ''a --> b --> c'')) \<noteq> 2 \<and>
   is_timestamp_line (find_and_analyze_timestamp_line ascii_db (py ''a --> b --> c'')) \<and>
   \<not> needs_fixing (find_and_analyze_timestamp_line ascii_db (py ''a --> b --> c'')) \<and>
   fixed_line (find_and_analyze_timestamp_line ascii_db (py ''a --> b --> c'')) = None \<and>
   contains_arrow (rstrip_chars [10, 13] (py ''a --> b --> c'' @ [13, 10])) \<and>
   length (split_arrow (rstrip_chars [10, 13] (py ''a --> b --> c'' @ [13, 10]))) \<noteq> 2 \<and>
   process_line ascii_db 7 (py ''a --> b --> c'' @ [13, 10])
      (\<lparr>total_lines = 9, timestamp_lines_found = 2, timestamp_lines_fixed = 1,
        issues_found = [], fixes_applied = []\<rparr>, [])
     = Inr (\<lparr>total_lines = 9, timestamp_lines_found = 3, timestamp_lines_fixed = 1,
             issues_found = [], fixes_applied = []\<rparr>, [py ''a --> b --> c'' @ [13, 10]]) \<and>
   (\<exists>st' out'.
      process_srt_lines ascii_db
        [py ''1'' @ [10], py ''a --> b --> c'' @ [13, 10], py ''01:30,500 --> 01:31,500'' @ [10]]
        = Inr (st', out') \<and>
      length out' = 3 \<and> total_lines st' = 3 \<and>
      timestamp_lines_found st' = 2 \<and> timestamp_lines_fixed st' = 1 \<and>
      out' ! 1 = py ''a --> b --> c'' @ [13, 10])"
proof -
  let ?L = "[py ''1'' @ [10], py ''a --> b --> c'' @ [13, 10],
             py ''01:30,500 --> 01:31,500'' @ [10]]"
  have a: "contains_arrow (py ''a --> b --> c'') \<and>
           length (split_arrow (py ''a --> b --> c'')) \<noteq> 2"
    by code_simp
  have b: "contains_arrow (rstrip_chars [10, 13] (py ''a --> b --> c'' @ [13, 10])) \<and>
           length (split_arrow (rstrip_chars [10, 13] (py ''a --> b --> c'' @ [13, 10]))) \<noteq> 2"
    by code_simp
  have f: "length (filter (\<lambda>x. is_timestamp_line
          (find_and_analyze_timestamp_line ascii_db (rstrip_chars [10, 13] x))) ?L) = 2"
    by code_simp
  have g: "length (filter (\<lambda>x. needs_fixing
          (find_and_analyze_timestamp_line ascii_db (rstrip_chars [10, 13] x))) ?L) = 1"
    by code_simp
  note t = malformed_arrow_line [of "py ''a --> b --> c''" ascii_db
        "py ''a --> b --> c'' @ [13, 10]" 7
        "\<lparr>total_lines = 9, timestamp_lines_found = 2, timestamp_lines_fixed = 1,
          issues_found = [], fixes_applied = []\<rparr>" "[]" ?L]
  from t a b have 1:
    "is_timestamp_line (find_and_analyze_timestamp_line ascii_db (py ''a --> b --> c'')) \<and>
     \<not> needs_fixing (find_and_analyze_timestamp_line ascii_db (py ''a --> b --> c'')) \<and>
     fixed_line (find_and_analyze_timestamp_line ascii_db (py ''a --> b --> c'')) = None \<and>
     process_line ascii_db 7 (py ''a --> b --> c'' @ [13, 10])
      (\<lparr>total_lines = 9, timestamp_lines_found = 2, timestamp_lines_fixed = 1,
        issues_found = [], fixes_applied = []\<rparr>, [])
     = Inr (\<lparr>total_lines = 9, timestamp_lines_found = 3, timestamp_lines_fixed = 1,
             issues_found = [], fixes_applied = []\<rparr>, [py ''a --> b --> c'' @ [13, 10]])"
    by simp
  from t obtain st' out' where
    p: "process_srt_lines ascii_db ?L = Inr (st', out')" "length out' = length ?L"
       "total_lines st' = length ?L"
       "timestamp_lines_found st' =
        length (filter (\<lambda>x. is_timestamp_line
          (find_and_analyze_timestamp_line ascii_db (rstrip_chars [10, 13] x))) ?L)"
       "timestamp_lines_fixed st' =
        length (filter (\<lambda>x. needs_fixing
          (find_and_analyze_timestamp_line ascii_db (rstrip_chars [10, 13] x))) ?L)"
    and q: "\<forall>i<length ?L.
         contains_arrow (rstrip_chars [10, 13] (?L ! i)) \<and>
         length (split_arrow (rstrip_chars [10, 13] (?L ! i))) \<noteq> 2 \<longrightarrow>
           is_timestamp_line
             (find_and_analyze_timestamp_line ascii_db (rstrip_chars [10, 13] (?L ! i))) \<and>
           \<not> needs_fixing
             (find_and_analyze_timestamp_line ascii_db (rstrip_chars [10, 13] (?L ! i))) \<and>
           out' ! i = ?L ! i"
    by blast
  have "(1::nat) < length ?L" by simp
  moreover have "?L ! 1 = py ''a --> b --> c'' @ [13, 10]" by simp
  ultimately have o: "out' ! 1 = py ''a --> b --> c'' @ [13, 10]"
    using q b by metis
  from p f g o have 2: "\<exists>st' out'.
      process_srt_lines ascii_db ?L = Inr (st', out') \<and>
      length out' = 3 \<and> total_lines st' = 3 \<and>
      timestamp_lines_found st' = 2 \<and> timestamp_lines_fixed st' = 1 \<and>
      out' ! 1 = py ''a --> b --> c'' @ [13, 10]"
    by (intro exI [of _ st'] exI [of _ out']) simp
  from a b 1 2 show ?thesis by blast
qed

text \<open>
  C6. An analysis that needs fixing carries a fixed line, also in the branch of the
  missing arrow, where \<open>needs_fixing\<close> is set before the second search; and the file
  pass emits unchanged every line whose analysis needs no fixing.
\<close>

theorem needs_fixing_invariant:
  "(needs_fixing (find_and_analyze_timestamp_line U line) \<longrightarrow>
      fixed_line (find_and_analyze_timestamp_line U line) \<noteq> None) \<and>
   (\<not> contains_arrow line \<and> search_pair_pattern U line \<longrightarrow>
      needs_fixing (find_and_analyze_timestamp_line U line) \<and>
      fixed_line (find_and_analyze_timestamp_line U line) \<noteq> None) \<and>
   (\<exists>st out. process_srt_lines U lines = Inr (st, out) \<and> length out = length lines \<and>
      (\<forall>i<length lines.
         \<not> needs_fixing (find_and_analyze_timestamp_line U (rstrip_chars [10, 13] (lines ! i)))
         \<longrightarrow> out ! i = lines ! i))"
proof -
  have 1: "needs_fixing (find_and_analyze_timestamp_line U line) \<longrightarrow>
      fixed_line (find_and_analyze_timestamp_line U line) \<noteq> None"
    by (simp add: needs_fixing_fixed_line)
  have 2: "\<not> contains_arrow line \<and> search_pair_pattern U line \<longrightarrow>
      needs_fixing (find_and_analyze_timestamp_line U line) \<and>
      fixed_line (find_and_analyze_timestamp_line U line) \<noteq> None"
  proof
    assume a: "\<not> contains_arrow line \<and> search_pair_pattern U line"
    then obtain l r where "search_timestamp_pattern U line = Some (l, r)"
      by (auto simp: search_pair_iff)
    with a show "needs_fixing (find_and_analyze_timestamp_line U line) \<and>
        fixed_line (find_and_analyze_timestamp_line U line) \<noteq> None"
      by (simp add: find_pair)
  qed
  from process_srt_lines_eq [of U lines] obtain st where
    "process_srt_lines U lines = Inr (st, map (emitted_line U) lines)" by blast
  moreover have "\<forall>i<length lines.
         \<not> needs_fixing (find_and_analyze_timestamp_line U (rstrip_chars [10, 13] (lines ! i)))
         \<longrightarrow> map (emitted_line U) lines ! i = lines ! i"
    by (simp add: emitted_line_def needs_fixing_fixed_line)
  ultimately have 3: "\<exists>st out. process_srt_lines U lines = Inr (st, out) \<and>
      length out = length lines \<and>
      (\<forall>i<length lines.
         \<not> needs_fixing (find_and_analyze_timestamp_line U (rstrip_chars [10, 13] (lines ! i)))
         \<longrightarrow> out ! i = lines ! i)"
    by simp
  from 1 2 3 show ?thesis by (intro conjI)
qed

theorem needs_fixing_invariant_witness:
  "needs_fixing (find_and_analyze_timestamp_line ascii_db (py ''01:30,500 --> 01:31,500'')) \<and>
   fixed_line (find_and_analyze_timestamp_line ascii_db (py ''01:30,500 --> 01:31,500'')) \<noteq> None \<and>
   \<not> contains_arrow (py ''01:00,600  01:01,600'') \<and>
   search_pair_pattern ascii_db (py ''01:00,600  01:01,600'') \<and>
   needs_fixing (find_and_analyze_timestamp_line ascii_db (py ''01:00,600  01:01,600'')) \<and>
   fixed_line (find_and_analyze_timestamp_line ascii_db (py ''01:00,600  01:01,600'')) \<noteq> None \<and>
   \<not> needs_fixing (find_and_analyze_timestamp_line ascii_db
        (rstrip_chars [10, 13] ([py ''1'' @ [10], py ''00:00:05,000 --> 00:00:07,000'' @ [13, 10]] ! 1))) \<and>
   (\<exists>st out. process_srt_lines ascii_db [py ''1'' @ [10], py ''00:00:05,000 --> 00:00:07,000'' @ [13, 10]]
        = Inr (st, out) \<and>
      out ! 1 = py ''00:00:05,000 --> 00:00:07,000'' @ [13, 10])"
proof -
  let ?L = "[py ''1'' @ [10], py ''00:00:05,000 --> 00:00:07,000'' @ [13, 10]]"
  have a: "needs_fixing (find_and_analyze_timestamp_line ascii_db (py ''01:30,500 --> 01:31,500''))"
    by code_simp
  have b: "\<not> contains_arrow (py ''01:00,600  01:01,600'') \<and>
           search_pair_pattern ascii_db (py ''01:00,600  01:01,600'')"
    by code_simp
  have c: "\<not> needs_fixing (find_and_analyze_timestamp_line ascii_db
             (rstrip_chars [10, 13] (?L ! 1)))"
    by code_simp
  from needs_fixing_invariant [of ascii_db "py ''01:30,500 --> 01:31,500''" ?L] a
  have 1: "fixed_line (find_and_analyze_timestamp_line ascii_db (py ''01:30,500 --> 01:31,500''))
             \<noteq> None"
    by blast
  from needs_fixing_invariant [of ascii_db "py ''01:00,600  01:01,600''" ?L] b
  have 2: "needs_fixing (find_and_analyze_timestamp_line ascii_db (py ''01:00,600  01:01,600'')) \<and>
           fixed_line (find_and_analyze_timestamp_line ascii_db (py ''01:00,600  01:01,600''))
             \<noteq> None"
    by blast
  from needs_fixing_invariant [of ascii_db "[]" ?L] obtain st out where
    p: "process_srt_lines ascii_db ?L = Inr (st, out)" and
    q: "\<forall>i<length ?L.
         \<not> needs_fixing (find_and_analyze_timestamp_line ascii_db (rstrip_chars [10, 13] (?L ! i)))
         \<longrightarrow> out ! i = ?L ! i"
    by blast
  from q c have "out ! 1 = ?L ! 1" by (simp del: nth_Cons_Suc nth_Cons_numeral)
  with p have 3: "\<exists>st out. process_srt_lines ascii_db ?L = Inr (st, out) \<and>
      out ! 1 = py ''00:00:05,000 --> 00:00:07,000'' @ [13, 10]"
    by simp
  from a b c 1 2 3 show ?thesis by blast
qed

lemma full_line_no_fix:
  assumes ok: "unicode_db_ok U"
    and f: "is_timestamp_line (find_and_analyze_timestamp_line U line) \<longrightarrow> full_line U line"
  shows "\<not> needs_fixing (find_and_analyze_timestamp_line U line)"
proof (cases line rule: find_cases [where U = U])
  case (two l r)
  with f have "full_shape U (strip U l)" "full_shape U (strip U r)"
    by (simp_all add: find_arrow_two full_line_def)
  with match_full_strip [OF ok, of l] match_full_strip [OF ok, of r]
  have "match_full_pattern U (strip U l) \<noteq> None" "match_full_pattern U (strip U r) \<noteq> None"
    by blast+
  with two show ?thesis by (simp add: find_arrow_two analyze_needs_fixing)
next
  case other
  then show ?thesis by (simp add: find_arrow_other)
next
  case (pair l r)
  with f have "full_line U line" by (simp add: find_pair)
  with pair(1) show ?thesis by (simp add: full_line_def split_arrow_no_arrow)
next
  case none
  then show ?thesis by (simp add: find_none)
qed

text \<open>
  C8. When every line that is recognised as a timestamp line is in the full format on
  both sides, the file pass fixes no line and returns the input lines as they are.
\<close>

theorem round_trip:
  assumes ok: "unicode_db_ok U"
    and full: "\<forall>raw\<in>set lines.
                 is_timestamp_line (find_and_analyze_timestamp_line U (rstrip_chars [10, 13] raw))
                 \<longrightarrow> full_line U (rstrip_chars [10, 13] raw)"
  shows "\<exists>st. process_srt_lines U lines = Inr (st, lines) \<and> timestamp_lines_fixed st = 0"
proof -
  have n: "\<not> needs_fixing (find_and_analyze_timestamp_line U (rstrip_chars [10, 13] raw))"
    if "raw \<in> set lines" for raw
    using full that by (intro full_line_no_fix [OF ok]) blast
  then have "emitted_line U raw = raw" if "raw \<in> set lines" for raw
    using that by (simp add: emitted_line_def needs_fixing_fixed_line)
  then have m: "map (emitted_line U) lines = lines" by (simp add: map_idI)
  from n have z: "filter (\<lambda>raw. needs_fixing
             (find_and_analyze_timestamp_line U (rstrip_chars [10, 13] raw))) lines = []"
    by (simp add: filter_empty_conv)
  from process_srt_lines_eq [of U lines] m z show ?thesis by auto
qed

theorem round_trip_witness:
  "unicode_db_ok ascii_db \<and>
   \<not> is_timestamp_line (find_and_analyze_timestamp_line ascii_db
       (rstrip_chars [10, 13] (py ''1'' @ [10]))) \<and>
   is_timestamp_line (find_and_analyze_timestamp_line ascii_db
     (rstrip_chars [10, 13] (py ''00:00:05,000 --> 00:00:07,000'' @ [13, 10]))) \<and>
   full_line ascii_db (rstrip_chars [10, 13] (py ''00:00:05,000 --> 00:00:07,000'' @ [13, 10])) \<and>
   \<not> is_timestamp_line (find_and_analyze_timestamp_line ascii_db
       (rstrip_chars [10, 13] (py ''Hello''))) \<and>
   (\<exists>st. process_srt_lines ascii_db
            [py ''1'' @ [10], py ''00:00:05,000 --> 00:00:07,000'' @ [13, 10], py ''Hello'']
          = Inr (st, [py ''1'' @ [10], py ''00:00:05,000 --> 00:00:07,000'' @ [13, 10], py ''Hello''])
        \<and> timestamp_lines_fixed st = 0)"
proof -
  let ?L = "[py ''1'' @ [10], py ''00:00:05,000 --> 00:00:07,000'' @ [13, 10], py ''Hello'']"
  have a: "\<not> is_timestamp_line (find_and_analyze_timestamp_line ascii_db
       (rstrip_chars [10, 13] (py ''1'' @ [10])))"
    by code_simp
  have b: "is_timestamp_line (find_and_analyze_timestamp_line ascii_db
     (rstrip_chars [10, 13] (py ''00:00:05,000 --> 00:00:07,000'' @ [13, 10])))"
    by code_simp
  have c: "full_line ascii_db
     (rstrip_chars [10, 13] (py ''00:00:05,000 --> 00:00:07,000'' @ [13, 10]))"
    by code_simp
  have d: "\<not> is_timestamp_line (find_and_analyze_timestamp_line ascii_db
       (rstrip_chars [10, 13] (py ''Hello'')))"
    by code_simp
  from a c d have h: "\<forall>raw\<in>set ?L.
       is_timestamp_line (find_and_analyze_timestamp_line ascii_db (rstrip_chars [10, 13] raw))
       \<longrightarrow> full_line ascii_db (rstrip_chars [10, 13] raw)"
    by simp
  from round_trip [OF ascii_db_ok h] a b c d ascii_db_ok show ?thesis by blast
qed

text \<open>
  C10. A line that the file pass rewrites is emitted as the fixed text followed by one
  newline, whatever ended the original line: the fixed text is not empty and ends neither
  in a newline nor in a carriage return. A line that is not rewritten is emitted as it
  was, terminator included.
\<close>

theorem rewritten_line_terminator:
  assumes ok: "unicode_db_ok U"
  shows "\<exists>st out. process_srt_lines U lines = Inr (st, out) \<and> length out = length lines \<and>
     (\<forall>i<length lines.
        (needs_fixing (find_and_analyze_timestamp_line U (rstrip_chars [10, 13] (lines ! i))) \<longrightarrow>
           (\<exists>f. fixed_line (find_and_analyze_timestamp_line U (rstrip_chars [10, 13] (lines ! i)))
                  = Some f \<and>
                out ! i = f @ [10] \<and> f \<noteq> [] \<and> last f \<noteq> 10 \<and> last f \<noteq> 13)) \<and>
        (\<not> needs_fixing (find_and_analyze_timestamp_line U (rstrip_chars [10, 13] (lines ! i))) \<longrightarrow>
           out ! i = lines ! i))"
proof -
  from process_srt_lines_eq [of U lines] obtain st where
    p: "process_srt_lines U lines = Inr (st, map (emitted_line U) lines)" by blast
  have "(needs_fixing (find_and_analyze_timestamp_line U (rstrip_chars [10, 13] raw)) \<longrightarrow>
           (\<exists>f. fixed_line (find_and_analyze_timestamp_line U (rstrip_chars [10, 13] raw)) = Some f \<and>
                emitted_line U raw = f @ [10] \<and> f \<noteq> [] \<and> last f \<noteq> 10 \<and> last f \<noteq> 13)) \<and>
        (\<not> needs_fixing (find_and_analyze_timestamp_line U (rstrip_chars [10, 13] raw)) \<longrightarrow>
           emitted_line U raw = raw)" for raw
    using fixed_line_last [OF ok, of "rstrip_chars [10, 13] raw"]
    by (auto simp: emitted_line_def needs_fixing_fixed_line)
  then have "\<forall>i<length lines.
        (needs_fixing (find_and_analyze_timestamp_line U (rstrip_chars [10, 13] (lines ! i))) \<longrightarrow>
           (\<exists>f. fixed_line (find_and_analyze_timestamp_line U (rstrip_chars [10, 13] (lines ! i)))
                  = Some f \<and>
                map (emitted_line U) lines ! i = f @ [10] \<and> f \<noteq> [] \<and> last f \<noteq> 10 \<and> last f \<noteq> 13)) \<and>
        (\<not> needs_fixing (find_and_analyze_timestamp_line U (rstrip_chars [10, 13] (lines ! i))) \<longrightarrow>
           map (emitted_line U) lines ! i = lines ! i)"
    by simp
  with p show ?thesis by (intro exI [of _ st] exI [of _ "map (emitted_line U) lines"]) simp
qed

theorem rewritten_line_terminator_witness:
  "unicode_db_ok ascii_db \<and>
   needs_fixing (find_and_analyze_timestamp_line ascii_db (rstrip_chars [10, 13]
     ([py ''01:30,500 --> 01:31,500'' @ [13, 10], py ''1:00,600  1:01,600'', py ''Hi'' @ [13, 10]] ! 0))) \<and>
   needs_fixing (find_and_analyze_timestamp_line ascii_db (rstrip_chars [10, 13]
     ([py ''01:30,500 --> 01:31,500'' @ [13, 10], py ''1:00,600  1:01,600'', py ''Hi'' @ [13, 10]] ! 1))) \<and>
   \<not> needs_fixing (find_and_analyze_timestamp_line ascii_db (rstrip_chars [10, 13]
     ([py ''01:30,500 --> 01:31,500'' @ [13, 10], py ''1:00,600  1:01,600'', py ''Hi'' @ [13, 10]] ! 2))) \<and>
   (\<exists>st out. process_srt_lines ascii_db
       [py ''01:30,500 --> 01:31,500'' @ [13, 10], py ''1:00,600  1:01,600'', py ''Hi'' @ [13, 10]]
        = Inr (st, out) \<and>
      out ! 0 = py ''00:01:30,500 --> 00:01:31,500'' @ [10] \<and>
      out ! 1 = py ''00:01:00,600 --> 00:01:01,600'' @ [10] \<and>
      out ! 2 = py ''Hi'' @ [13, 10])"
proof -
  let ?L = "[py ''01:30,500 --> 01:31,500'' @ [13, 10], py ''1:00,600  1:01,600'',
             py ''Hi'' @ [13, 10]]"
  let ?A = "\<lambda>i. find_and_analyze_timestamp_line ascii_db (rstrip_chars [10, 13] (?L ! i))"
  have a: "needs_fixing (?A 0)" "needs_fixing (?A 1)" "\<not> needs_fixing (?A 2)"
    by code_simp+
  have f: "fixed_line (?A 0) = Some (py ''00:01:30,500 --> 00:01:31,500'')"
          "fixed_line (?A 1) = Some (py ''00:01:00,600 --> 00:01:01,600'')"
    by code_simp+
  from rewritten_line_terminator [OF ascii_db_ok, of ?L] obtain st out where
    p: "process_srt_lines ascii_db ?L = Inr (st, out)" and
    q: "\<forall>i<length ?L.
        (needs_fixing (?A i) \<longrightarrow>
           (\<exists>f. fixed_line (?A i) = Some f \<and>
                out ! i = f @ [10] \<and> f \<noteq> [] \<and> last f \<noteq> 10 \<and> last f \<noteq> 13)) \<and>
        (\<not> needs_fixing (?A i) \<longrightarrow> out ! i = ?L ! i)"
    by blast
  have l: "(0::nat) < length ?L" "(1::nat) < length ?L" "(2::nat) < length ?L" by simp_all
  from q l(1) a(1) f(1) have 0: "out ! 0 = py ''00:01:30,500 --> 00:01:31,500'' @ [10]"
    by (metis option.inject)
  from q l(2) a(2) f(2) have 1: "out ! 1 = py ''00:01:00,600 --> 00:01:01,600'' @ [10]"
    by (metis option.inject)
  from q l(3) a(3) have "out ! 2 = ?L ! 2" by blast
  then have 2: "out ! 2 = py ''Hi'' @ [13, 10]" by simp
  from p 0 1 2 have "\<exists>st out. process_srt_lines ascii_db ?L = Inr (st, out) \<and>
      out ! 0 = py ''00:01:30,500 --> 00:01:31,500'' @ [10] \<and>
      out ! 1 = py ''00:01:00,600 --> 00:01:01,600'' @ [10] \<and>
      out ! 2 = py ''Hi'' @ [13, 10]"
    by blast
  with a ascii_db_ok show ?thesis by blast
qed

subsection \<open>The search for a pair of tokens\<close>

lemma re_token_withD:
  "re_token_with U n s = Some (tok, rest) \<Longrightarrow>
     s = tok @ rest \<and>
     (\<exists>m ss ms. tok = m @ [58] @ ss @ [44] @ ms \<and> length m = n \<and> length ss = 2 \<and>
                 length ms = 3 \<and> list_all (isdecimal U) (m @ ss @ ms))"
  unfolding re_token_with_def
  by (auto simp: bind_eq_Some_conv re_digits_Some re_lit_Some)

lemma re_token_withI:
  "length m = n \<Longrightarrow> length ss = 2 \<Longrightarrow> length ms = 3 \<Longrightarrow>
   list_all (isdecimal U) (m @ ss @ ms) \<Longrightarrow>
     re_token_with U n ((m @ [58] @ ss @ [44] @ ms) @ rest)
       = Some (m @ [58] @ ss @ [44] @ ms, rest)"
  unfolding re_token_with_def
  by (simp add: re_digits_append re_lit_Cons)

lemma re_token_eq:
  "re_token U s =
     (case re_token_with U 2 s of Some x \<Rightarrow> [x] | None \<Rightarrow> []) @
     (case re_token_with U 1 s of Some x \<Rightarrow> [x] | None \<Rightarrow> [])"
  by (simp add: re_token_def map_filter_simps split: option.splits)

lemma re_token_set:
  "((tok, rest) \<in> set (re_token U s)) = (s = tok @ rest \<and> short_shape U tok)"
proof
  assume "(tok, rest) \<in> set (re_token U s)"
  then have "re_token_with U 2 s = Some (tok, rest) \<or> re_token_with U 1 s = Some (tok, rest)"
    by (auto simp: re_token_eq split: option.splits)
  then obtain n where n: "n = 1 \<or> n = 2" and "re_token_with U n s = Some (tok, rest)"
    by blast
  from re_token_withD [OF this(2)] n have "s = tok @ rest" and "\<exists>m ss ms. short_fields U tok m ss ms"
    by (auto simp: short_fields_def)
  then show "s = tok @ rest \<and> short_shape U tok" by (simp add: short_shape_fields)
next
  assume a: "s = tok @ rest \<and> short_shape U tok"
  then obtain m ss ms where f: "short_fields U tok m ss ms"
    by (auto simp: short_shape_fields)
  then have t: "tok = m @ [58] @ ss @ [44] @ ms" and l: "length m = 1 \<or> length m = 2"
    and r: "length ss = 2" "length ms = 3" "list_all (isdecimal U) (m @ ss @ ms)"
    by (simp_all add: short_fields_def)
  from l show "(tok, rest) \<in> set (re_token U s)"
  proof
    assume "length m = 1"
    from re_token_withI [OF this r, of rest] a t
    have "re_token_with U 1 s = Some (tok, rest)" by simp
    then show ?thesis by (simp add: re_token_eq split: option.splits)
  next
    assume "length m = 2"
    from re_token_withI [OF this r, of rest] a t
    have "re_token_with U 2 s = Some (tok, rest)" by simp
    then show ?thesis by (simp add: re_token_eq split: option.splits)
  qed
qed

lemma re_spaces_set:
  "(r2 \<in> set (re_spaces U s)) = (\<exists>ws. s = ws @ r2 \<and> ws \<noteq> [] \<and> list_all (isspace U) ws)"
proof
  assume "r2 \<in> set (re_spaces U s)"
  then obtain k where k: "1 \<le> k" "k \<le> length (takeWhile (isspace U) s)" and r2: "r2 = drop k s"
    by (auto simp: re_spaces_def)
  have "take k s = take k (takeWhile (isspace U) s)"
    using k(2) by (metis append_eq_conv_conj takeWhile_dropWhile_id take_append take_all_iff
        diff_is_0_eq take_0 append_Nil2 length_take min.absorb2 order_refl)
  then have "set (take k s) \<subseteq> set (takeWhile (isspace U) s)"
    by (metis set_take_subset)
  then have "list_all (isspace U) (take k s)"
    by (auto simp: list_all_iff dest: set_takeWhileD)
  moreover have "take k s \<noteq> []" using k by (cases s) auto
  moreover have "s = take k s @ r2" by (simp add: r2)
  ultimately show "\<exists>ws. s = ws @ r2 \<and> ws \<noteq> [] \<and> list_all (isspace U) ws" by blast
next
  assume "\<exists>ws. s = ws @ r2 \<and> ws \<noteq> [] \<and> list_all (isspace U) ws"
  then obtain ws where s: "s = ws @ r2" and ne: "ws \<noteq> []" and sp: "list_all (isspace U) ws"
    by blast
  from sp have "takeWhile (isspace U) s = ws @ takeWhile (isspace U) r2"
    by (simp add: s takeWhile_append2 list_all_iff)
  then have "length ws \<le> length (takeWhile (isspace U) s)" by simp
  moreover have "1 \<le> length ws" using ne by (cases ws) auto
  ultimately have "length ws \<in> set (rev [1 ..< Suc (length (takeWhile (isspace U) s))])"
    by auto
  then have "drop (length ws) s \<in> set (re_spaces U s)"
    unfolding re_spaces_def set_map by (rule imageI)
  then show "r2 \<in> set (re_spaces U s)" by (simp add: s)
qed

lemma pair_at_mem:
  "((l, r) \<in> set (pair_at U s)) =
     (\<exists>r1 r2 r3. (l, r1) \<in> set (re_token U s) \<and> r2 \<in> set (re_spaces U r1) \<and>
                  (r, r3) \<in> set (re_token U r2))"
  unfolding pair_at_def by force

lemma pair_at_set:
  "((l, r) \<in> set (pair_at U s)) = (\<exists>ws post. token_pair_at U s [] l ws r post)"
  unfolding pair_at_mem token_pair_at_def re_token_set re_spaces_set
  by auto

lemma short_shape_prefix_unique:
  assumes ok: "unicode_db_ok U" and a: "short_shape U a" and b: "short_shape U b"
    and e: "a @ x = b @ y"
  shows "a = b"
proof -
  from a obtain m ss ms where fa: "short_fields U a m ss ms" by (auto simp: short_shape_fields)
  from b obtain m' ss' ms' where fb: "short_fields U b m' ss' ms'"
    by (auto simp: short_shape_fields)
  have nd: "\<not> isdecimal U 58" using ok by (rule ok_colon_not_digit)
  from fa fb e nd show ?thesis
    by (auto simp: short_fields_def length1_conv length2_conv length3_conv)
qed

lemma short_shape_hd:
  assumes "short_shape U a"
  shows "a \<noteq> [] \<and> isdecimal U (hd a)"
proof -
  from assms obtain m ss ms where "short_fields U a m ss ms" by (auto simp: short_shape_fields)
  then show ?thesis
    by (auto simp: short_fields_def length1_conv length2_conv)
qed

lemma spaces_then_token:
  assumes ok: "unicode_db_ok U" and sp: "list_all (isspace U) ws" and r: "short_shape U r"
  shows "takeWhile (isspace U) (ws @ r @ post) = ws"
proof -
  from short_shape_hd [OF r] obtain c cs where rc: "r = c # cs" and "isdecimal U c"
    by (cases r) auto
  with ok have "\<not> isspace U c" by (simp add: ok_digit_not_space)
  then have "takeWhile (isspace U) (r @ post) = []" by (simp add: rc)
  with sp show ?thesis by (simp add: takeWhile_append2 list_all_iff)
qed

lemma token_pair_unique:
  assumes ok: "unicode_db_ok U"
    and 1: "token_pair_at U s [] l ws r post"
    and 2: "token_pair_at U s [] l' ws' r' post'"
  shows "l = l' \<and> r = r'"
proof -
  from 1 2 have e: "l @ (ws @ r @ post) = l' @ (ws' @ r' @ post')"
    by (simp add: token_pair_at_def)
  from 1 2 have "l = l'"
    by (intro short_shape_prefix_unique [OF ok _ _ e]) (simp_all add: token_pair_at_def)
  with e have e2: "ws @ r @ post = ws' @ r' @ post'" by simp
  from 1 have "takeWhile (isspace U) (ws @ r @ post) = ws"
    by (intro spaces_then_token [OF ok]) (simp_all add: token_pair_at_def)
  moreover from 2 have "takeWhile (isspace U) (ws' @ r' @ post') = ws'"
    by (intro spaces_then_token [OF ok]) (simp_all add: token_pair_at_def)
  ultimately have "ws = ws'" using e2 by simp
  with e2 have e3: "r @ post = r' @ post'" by simp
  from 1 2 have "r = r'"
    by (intro short_shape_prefix_unique [OF ok _ _ e3]) (simp_all add: token_pair_at_def)
  with \<open>l = l'\<close> show ?thesis by simp
qed

lemma search_timestamp_SomeD:
  "search_timestamp_pattern U line = Some g \<Longrightarrow>
     \<exists>pre s. line = pre @ s \<and> pair_at U s \<noteq> [] \<and> g = hd (pair_at U s) \<and>
             (\<forall>pre' s'. line = pre' @ s' \<longrightarrow> length pre' < length pre \<longrightarrow> pair_at U s' = [])"
proof (induction line)
  case Nil
  then show ?case by (auto split: list.splits)
next
  case (Cons c cs)
  show ?case
  proof (cases "pair_at U (c # cs)")
    case (Cons x xs)
    with Cons.prems have "g = hd (pair_at U (c # cs))" by simp
    with Cons show ?thesis by (intro exI [of _ "[]"] exI [of _ "c # cs"]) simp
  next
    case Nil
    with Cons.prems have "search_timestamp_pattern U cs = Some g" by simp
    from Cons.IH [OF this] obtain pre s where
      p: "cs = pre @ s" "pair_at U s \<noteq> []" "g = hd (pair_at U s)"
      and m: "\<forall>pre' s'. cs = pre' @ s' \<longrightarrow> length pre' < length pre \<longrightarrow> pair_at U s' = []"
      by blast
    have "\<forall>pre' s'. c # cs = pre' @ s' \<longrightarrow> length pre' < length (c # pre) \<longrightarrow> pair_at U s' = []"
    proof (intro allI impI)
      fix pre' s'
      assume e: "c # cs = pre' @ s'" and l: "length pre' < length (c # pre)"
      show "pair_at U s' = []"
      proof (cases pre')
        case Nil
        with e \<open>pair_at U (c # cs) = []\<close> show ?thesis by simp
      next
        case (Cons d ds)
        with e l have "cs = ds @ s'" "length ds < length pre" by simp_all
        with m show ?thesis by blast
      qed
    qed
    with p show ?thesis by (intro exI [of _ "c # pre"] exI [of _ s]) simp
  qed
qed

lemma search_timestamp_NoneD:
  "search_timestamp_pattern U line = None \<Longrightarrow> line = pre @ s \<Longrightarrow> pair_at U s = []"
proof (induction line arbitrary: pre)
  case Nil
  then show ?case by (auto split: list.splits)
next
  case (Cons c cs)
  from Cons.prems(1) have n: "pair_at U (c # cs) = []" "search_timestamp_pattern U cs = None"
    by (auto split: list.splits)
  show ?case
  proof (cases pre)
    case Nil
    with Cons.prems(2) n show ?thesis by simp
  next
    case (Cons d ds)
    with Cons.prems(2) have "cs = ds @ s" by simp
    from Cons.IH [OF n(2) this] show ?thesis .
  qed
qed

lemma short_shape_strip:
  assumes ok: "unicode_db_ok U" and t: "short_shape U t"
  shows "strip U t = t"
proof -
  from t obtain m ss ms where f: "short_fields U t m ss ms" by (auto simp: short_shape_fields)
  from short_shape_hd [OF t] have ne: "t \<noteq> []" and "isdecimal U (hd t)" by simp_all
  then have h: "\<not> isspace U (hd t)" using ok by (simp add: ok_digit_not_space)
  from f have "isdecimal U (last t)"
    by (auto simp: short_fields_def length3_conv)
  then have l: "\<not> isspace U (last t)" using ok by (simp add: ok_digit_not_space)
  from ne h l show ?thesis by (rule strip_id)
qed

lemma short_shape_not_full: "short_shape U t \<Longrightarrow> \<not> full_shape U t"
  by (auto simp: short_shape_fields full_shape_fields short_fields_def full_fields_def
           dest!: arg_cong [where f = length])

lemma analyze_short_token:
  assumes ok: "unicode_db_ok U" and t: "short_shape U t"
  shows "format_detected (analyze_timestamp_format U t) = MM_SS_mmm"
proof -
  have s: "strip U t = t" using ok t by (rule short_shape_strip)
  note mf = match_full_strip [OF ok, of t, unfolded s]
  note ms = match_short_strip [OF ok, of t, unfolded s]
  from mf short_shape_not_full [OF t]
  have "match_full_pattern U t = None" by blast
  moreover from ms t
  have "match_short_pattern U t \<noteq> None" by blast
  ultimately show ?thesis by (auto simp: analyze_timestamp_format_def Let_def s)
qed

lemma missing_arrow_general:
  assumes ok: "unicode_db_ok U"
    and na: "\<not> contains_arrow line"
    and occ: "token_pair_at U line pre0 l0 ws0 r0 post0"
  shows "\<exists>pre l ws r post.
           token_pair_at U line pre l ws r post \<and>
           (\<forall>pre' l' ws' r' post'. token_pair_at U line pre' l' ws' r' post' \<longrightarrow>
                length pre \<le> length pre' \<and> (length pre' = length pre \<longrightarrow> l' = l \<and> r' = r)) \<and>
           find_and_analyze_timestamp_line U line =
             \<lparr>original_line = line, is_timestamp_line = True, has_arrow = False,
              left_timestamp = Some l, right_timestamp = Some r,
              left_analysis = Some (analyze_timestamp_format U l),
              right_analysis = Some (analyze_timestamp_format U r),
              needs_fixing = True,
              fixed_line =
                Some (fix_timestamp_format U l @ py '' --> '' @ fix_timestamp_format U r)\<rparr>"
proof -
  have at: "pair_at U s' \<noteq> []" if "token_pair_at U line pre' l' ws' r' post'"
    and "line = pre' @ s'" for pre' l' ws' r' post' s'
  proof -
    from that have "token_pair_at U s' [] l' ws' r' post'" by (simp add: token_pair_at_def)
    then have "(l', r') \<in> set (pair_at U s')" unfolding pair_at_set by blast
    then show ?thesis by auto
  qed
  from occ have "line = pre0 @ (l0 @ ws0 @ r0 @ post0)" by (simp add: token_pair_at_def)
  from at [OF occ this] search_timestamp_NoneD [OF _ this, of U]
  obtain g where "search_timestamp_pattern U line = Some g" by (cases "search_timestamp_pattern U line") auto
  moreover obtain l r where g: "g = (l, r)" by (cases g) auto
  ultimately have st: "search_timestamp_pattern U line = Some (l, r)" by simp
  from search_timestamp_SomeD [OF st] obtain pre s where
    ps: "line = pre @ s" "pair_at U s \<noteq> []" "(l, r) = hd (pair_at U s)"
    and mn: "\<forall>pre' s'. line = pre' @ s' \<longrightarrow> length pre' < length pre \<longrightarrow> pair_at U s' = []"
    by blast
  from ps(2,3) have "(l, r) \<in> set (pair_at U s)" by (metis hd_in_set)
  then obtain ws post where tp: "token_pair_at U s [] l ws r post"
    unfolding pair_at_set by blast
  with ps(1) have tpl: "token_pair_at U line pre l ws r post" by (simp add: token_pair_at_def)
  have first: "length pre \<le> length pre' \<and> (length pre' = length pre \<longrightarrow> l' = l \<and> r' = r)"
    if t': "token_pair_at U line pre' l' ws' r' post'" for pre' l' ws' r' post'
  proof
    from t' have e: "line = pre' @ (l' @ ws' @ r' @ post')" by (simp add: token_pair_at_def)
    show "length pre \<le> length pre'"
    proof (rule ccontr)
      assume "\<not> length pre \<le> length pre'"
      then have "length pre' < length pre" by simp
      with mn e have "pair_at U (l' @ ws' @ r' @ post') = []" by blast
      with at [OF t' e] show False by simp
    qed
    show "length pre' = length pre \<longrightarrow> l' = l \<and> r' = r"
    proof
      assume "length pre' = length pre"
      with e ps(1) have "pre' = pre" "s = l' @ ws' @ r' @ post'" by auto
      with t' have "token_pair_at U s [] l' ws' r' post'" by (simp add: token_pair_at_def)
      from token_pair_unique [OF ok tp this] show "l' = l \<and> r' = r" by simp
    qed
  qed
  from tpl first find_pair [OF na st] show ?thesis by blast
qed

lemma fix_short_fields:
  assumes ok: "unicode_db_ok U" and f: "short_fields U t m ss ms"
  shows "fix_timestamp_format U t = py ''00:'' @ rjust 2 48 m @ py '':'' @ ss @ py '','' @ ms"
proof -
  from f have "short_shape U t" by (auto simp: short_shape_fields)
  then have s: "strip U t = t" using ok by (intro short_shape_strip)
  from match_short_fields [OF ok f] show ?thesis by (simp add: fix_timestamp_format_def s)
qed

text \<open>
  C4. A line without arrow that contains two tokens of the hour-missing shape separated
  by whitespace is a timestamp line without arrow that needs fixing; left and right are
  the tokens of the first such pair, and the fixed line is
  \<open>repair(left) + " --> " + repair(right)\<close>. A line that contains the arrow is handled by
  the arrow branch, whatever else it contains. The line \<open>01:00,600  01:01,600\<close> becomes
  \<open>00:01:00,600 --> 00:01:01,600\<close>.
\<close>

theorem missing_arrow_line:
  assumes ok: "unicode_db_ok U"
    and na: "\<not> contains_arrow line"
    and occ: "token_pair_at U line pre0 l0 ws0 r0 post0"
  shows "(\<exists>pre l ws r post.
            token_pair_at U line pre l ws r post \<and>
            (\<forall>pre' l' ws' r' post'. token_pair_at U line pre' l' ws' r' post' \<longrightarrow>
                 length pre \<le> length pre' \<and> (length pre' = length pre \<longrightarrow> l' = l \<and> r' = r)) \<and>
            is_timestamp_line (find_and_analyze_timestamp_line U line) \<and>
            \<not> has_arrow (find_and_analyze_timestamp_line U line) \<and>
            needs_fixing (find_and_analyze_timestamp_line U line) \<and>
            left_timestamp (find_and_analyze_timestamp_line U line) = Some l \<and>
            right_timestamp (find_and_analyze_timestamp_line U line) = Some r \<and>
            left_analysis (find_and_analyze_timestamp_line U line)
              = Some (analyze_timestamp_format U l) \<and>
            right_analysis (find_and_analyze_timestamp_line U line)
              = Some (analyze_timestamp_format U r) \<and>
            format_detected (analyze_timestamp_format U l) = MM_SS_mmm \<and>
            format_detected (analyze_timestamp_format U r) = MM_SS_mmm \<and>
            fixed_line (find_and_analyze_timestamp_line U line)
              = Some (fix_timestamp_format U l @ py '' --> '' @ fix_timestamp_format U r)) \<and>
         (contains_arrow line2 \<longrightarrow>
            has_arrow (find_and_analyze_timestamp_line U line2) \<and>
            (\<forall>a b. split_arrow line2 = [a, b] \<longrightarrow>
               left_timestamp (find_and_analyze_timestamp_line U line2) = Some (strip U a) \<and>
               right_timestamp (find_and_analyze_timestamp_line U line2) = Some (strip U b)) \<and>
            (length (split_arrow line2) \<noteq> 2 \<longrightarrow>
               left_timestamp (find_and_analyze_timestamp_line U line2) = None \<and>
               right_timestamp (find_and_analyze_timestamp_line U line2) = None \<and>
               fixed_line (find_and_analyze_timestamp_line U line2) = None)) \<and>
         fixed_line (find_and_analyze_timestamp_line U (py ''01:00,600  01:01,600''))
           = Some (py ''00:01:00,600 --> 00:01:01,600'')"
proof -
  from missing_arrow_general [OF ok na occ] obtain pre l ws r post where
    tp: "token_pair_at U line pre l ws r post"
    and first: "\<forall>pre' l' ws' r' post'. token_pair_at U line pre' l' ws' r' post' \<longrightarrow>
                 length pre \<le> length pre' \<and> (length pre' = length pre \<longrightarrow> l' = l \<and> r' = r)"
    and rec: "find_and_analyze_timestamp_line U line =
             \<lparr>original_line = line, is_timestamp_line = True, has_arrow = False,
              left_timestamp = Some l, right_timestamp = Some r,
              left_analysis = Some (analyze_timestamp_format U l),
              right_analysis = Some (analyze_timestamp_format U r),
              needs_fixing = True,
              fixed_line =
                Some (fix_timestamp_format U l @ py '' --> '' @ fix_timestamp_format U r)\<rparr>"
    by blast
  from tp have sh: "short_shape U l" "short_shape U r" by (simp_all add: token_pair_at_def)
  note fm = analyze_short_token [OF ok sh(1)] analyze_short_token [OF ok sh(2)]
  have 1: "\<exists>pre l ws r post.
            token_pair_at U line pre l ws r post \<and>
            (\<forall>pre' l' ws' r' post'. token_pair_at U line pre' l' ws' r' post' \<longrightarrow>
                 length pre \<le> length pre' \<and> (length pre' = length pre \<longrightarrow> l' = l \<and> r' = r)) \<and>
            is_timestamp_line (find_and_analyze_timestamp_line U line) \<and>
            \<not> has_arrow (find_and_analyze_timestamp_line U line) \<and>
            needs_fixing (find_and_analyze_timestamp_line U line) \<and>
            left_timestamp (find_and_analyze_timestamp_line U line) = Some l \<and>
            right_timestamp (find_and_analyze_timestamp_line U line) = Some r \<and>
            left_analysis (find_and_analyze_timestamp_line U line)
              = Some (analyze_timestamp_format U l) \<and>
            right_analysis (find_and_analyze_timestamp_line U line)
              = Some (analyze_timestamp_format U r) \<and>
            format_detected (analyze_timestamp_format U l) = MM_SS_mmm \<and>
            format_detected (analyze_timestamp_format U r) = MM_SS_mmm \<and>
            fixed_line (find_and_analyze_timestamp_line U line)
              = Some (fix_timestamp_format U l @ py '' --> '' @ fix_timestamp_format U r)"
    apply (rule exI [of _ pre], rule exI [of _ l], rule exI [of _ ws], rule exI [of _ r],
           rule exI [of _ post])
    using tp first fm by (simp add: rec)
  have 2: "contains_arrow line2 \<longrightarrow>
            has_arrow (find_and_analyze_timestamp_line U line2) \<and>
            (\<forall>a b. split_arrow line2 = [a, b] \<longrightarrow>
               left_timestamp (find_and_analyze_timestamp_line U line2) = Some (strip U a) \<and>
               right_timestamp (find_and_analyze_timestamp_line U line2) = Some (strip U b)) \<and>
            (length (split_arrow line2) \<noteq> 2 \<longrightarrow>
               left_timestamp (find_and_analyze_timestamp_line U line2) = None \<and>
               right_timestamp (find_and_analyze_timestamp_line U line2) = None \<and>
               fixed_line (find_and_analyze_timestamp_line U line2) = None)"
    by (cases line2 rule: find_cases [where U = U])
       (simp_all add: find_arrow_two find_arrow_other)
  let ?E = "py ''01:00,600  01:01,600''"
  have naE: "\<not> contains_arrow ?E" by code_simp
  have tpE: "token_pair_at U ?E [] (py ''01:00,600'') (py ''  '') (py ''01:01,600'') []"
    by (simp add: token_pair_at_def py_def ok_digit_ascii [OF ok] ok_space_ascii [OF ok]
          ascii_digit_def ascii_space_def)
  from missing_arrow_general [OF ok naE tpE] obtain pre l ws r post where
    tpE': "token_pair_at U ?E pre l ws r post" and
    f: "\<forall>pre' l' ws' r' post'. token_pair_at U ?E pre' l' ws' r' post' \<longrightarrow>
          length pre \<le> length pre' \<and> (length pre' = length pre \<longrightarrow> l' = l \<and> r' = r)"
    and recE: "find_and_analyze_timestamp_line U ?E =
             \<lparr>original_line = ?E, is_timestamp_line = True, has_arrow = False,
              left_timestamp = Some l, right_timestamp = Some r,
              left_analysis = Some (analyze_timestamp_format U l),
              right_analysis = Some (analyze_timestamp_format U r),
              needs_fixing = True,
              fixed_line =
                Some (fix_timestamp_format U l @ py '' --> '' @ fix_timestamp_format U r)\<rparr>"
    by blast
  have fl: "fixed_line (find_and_analyze_timestamp_line U ?E)
               = Some (fix_timestamp_format U l @ py '' --> '' @ fix_timestamp_format U r)"
    by (simp add: recE)
  from f tpE have "length pre \<le> length ([]::pystr)" by blast
  then have "length pre = length ([]::pystr)" by simp
  with f tpE have lr: "l = py ''01:00,600''" "r = py ''01:01,600''" by metis+
  have "short_fields U (py ''01:00,600'') (py ''01'') (py ''00'') (py ''600'')"
       "short_fields U (py ''01:01,600'') (py ''01'') (py ''01'') (py ''600'')"
    by (simp_all add: short_fields_def py_def ok_digit_ascii [OF ok] ascii_digit_def)
  from fix_short_fields [OF ok this(1)] fix_short_fields [OF ok this(2)]
  have "fix_timestamp_format U (py ''01:00,600'') = py ''00:01:00,600''"
       "fix_timestamp_format U (py ''01:01,600'') = py ''00:01:01,600''"
    by (simp_all add: py_def rjust_def)
  with fl lr have 3: "fixed_line (find_and_analyze_timestamp_line U ?E)
           = Some (py ''00:01:00,600 --> 00:01:01,600'')"
    by (simp add: py_def)
  from 1 2 3 show ?thesis by (intro conjI)
qed

theorem missing_arrow_line_witness:
  "unicode_db_ok ascii_db \<and>
   \<not> contains_arrow (py ''x 1:00,600  01:01,6007 '') \<and>
   token_pair_at ascii_db (py ''x 1:00,600  01:01,6007 '')
     (py ''x '') (py ''1:00,600'') (py ''  '') (py ''01:01,600'') (py ''7 '') \<and>
   fixed_line (find_and_analyze_timestamp_line ascii_db (py ''x 1:00,600  01:01,6007 ''))
     = Some (py ''00:01:00,600 --> 00:01:01,600'') \<and>
   contains_arrow (py ''1:00,600  1:01,600 -->'') \<and>
   has_arrow (find_and_analyze_timestamp_line ascii_db (py ''1:00,600  1:01,600 -->'')) \<and>
   fixed_line (find_and_analyze_timestamp_line ascii_db (py ''01:00,600  01:01,600''))
     = Some (py ''00:01:00,600 --> 00:01:01,600'')"
proof -
  let ?X = "py ''x 1:00,600  01:01,6007 ''"
  have na: "\<not> contains_arrow ?X" by code_simp
  have tp: "token_pair_at ascii_db ?X
     (py ''x '') (py ''1:00,600'') (py ''  '') (py ''01:01,600'') (py ''7 '')"
    by code_simp
  have c: "contains_arrow (py ''1:00,600  1:01,600 -->'')" by code_simp
  have fx: "fixed_line (find_and_analyze_timestamp_line ascii_db ?X)
     = Some (py ''00:01:00,600 --> 00:01:01,600'')"
    by code_simp
  from missing_arrow_line [OF ascii_db_ok na tp, of "py ''1:00,600  1:01,600 -->''"] c
  have "has_arrow (find_and_analyze_timestamp_line ascii_db (py ''1:00,600  1:01,600 -->''))"
    and "fixed_line (find_and_analyze_timestamp_line ascii_db (py ''01:00,600  01:01,600''))
     = Some (py ''00:01:00,600 --> 00:01:01,600'')"
    by blast+
  with na tp c fx ascii_db_ok show ?thesis by blast
qed

subsection \<open>The front-ends compared\<close>

lemma split_arrow_from_acc:
  "split_arrow_from cur s =
     (rev cur @ hd (split_arrow_from [] s)) # tl (split_arrow_from [] s)"
proof (induction s arbitrary: cur)
  case Nil
  then show ?case by simp
next
  case (Cons c cs)
  show ?case
  proof (cases "take 3 (c # cs) = arrow")
    case True
    then show ?thesis by simp
  next
    case False
    from Cons [of "c # cur"] Cons [of "[c]"] False show ?thesis by simp
  qed
qed

lemma split_arrow_Cons:
  "take 3 (c # cs) \<noteq> arrow \<Longrightarrow>
     split_arrow (c # cs) = (c # hd (split_arrow cs)) # tl (split_arrow cs)"
  using split_arrow_from_acc [of "[c]" cs] by (simp add: split_arrow_def)

lemma split_arrow_arrow:
  "take 3 (c # cs) = arrow \<Longrightarrow> split_arrow (c # cs) = [] # split_arrow (drop 2 cs)"
  by (simp add: split_arrow_def)

lemma split_arrow_Nil [simp]: "split_arrow [] = [[]]"
  by (simp add: split_arrow_def)

lemma split_arrow_not_Nil [simp]: "split_arrow s \<noteq> []"
  unfolding split_arrow_def by (subst split_arrow_from_acc) simp

lemma contains_arrow_length: "contains_arrow s = (1 < length (split_arrow s))"
proof (induction s rule: length_induct)
  case (1 s)
  show ?case
  proof (cases s)
    case Nil
    then show ?thesis by simp
  next
    case (Cons c cs)
    show ?thesis
    proof (cases "take 3 (c # cs) = arrow")
      case True
      with Cons show ?thesis by (simp add: split_arrow_arrow)
    next
      case False
      from 1 Cons have "contains_arrow cs = (1 < length (split_arrow cs))" by simp
      with False Cons show ?thesis
        by (simp add: split_arrow_Cons)
    qed
  qed
qed

lemma arrow_head: "take 3 (c # cs) = arrow \<Longrightarrow> c = 45"
  by (simp add: arrow_def)

lemma split_arrow_lstrip:
  assumes "\<not> P 45"
  shows "split_arrow (dropWhile P s) = dropWhile P (hd (split_arrow s)) # tl (split_arrow s)"
proof (induction s)
  case Nil
  then show ?case by simp
next
  case (Cons c cs)
  show ?case
  proof (cases "take 3 (c # cs) = arrow")
    case True
    from True have "c = 45" by (rule arrow_head)
    with assms have "\<not> P c" by simp
    with True show ?thesis by (simp add: split_arrow_arrow)
  next
    case False
    with Cons show ?thesis by (simp add: split_arrow_Cons)
  qed
qed

lemma split_arrow_snoc:
  assumes "w \<noteq> 62"
  shows "split_arrow (s @ [w]) = butlast (split_arrow s) @ [last (split_arrow s) @ [w]]"
proof (induction s rule: length_induct)
  case (1 s)
  show ?case
  proof (cases s)
    case Nil
    then show ?thesis by (simp add: split_arrow_Cons arrow_def)
  next
    case (Cons c cs)
    show ?thesis
    proof (cases "take 3 (c # cs) = arrow")
      case True
      then have l: "2 \<le> length cs" by (auto simp: arrow_def split: nat.splits elim!: list.set_cases dest!: arg_cong [where f = length])
      with True have t: "take 3 (c # cs @ [w]) = arrow" by simp
      from l have d: "drop 2 (cs @ [w]) = drop 2 cs @ [w]" by simp
      from 1 Cons have "split_arrow (drop 2 cs @ [w]) =
          butlast (split_arrow (drop 2 cs)) @ [last (split_arrow (drop 2 cs)) @ [w]]"
        by simp
      with True t d Cons show ?thesis
        by (simp add: split_arrow_arrow)
    next
      case False
      have t: "take 3 (c # cs @ [w]) \<noteq> arrow"
      proof (cases "2 \<le> length cs")
        case True
        with False show ?thesis by simp
      next
        case False
        then have "cs = [] \<or> (\<exists>d. cs = [d])" by (cases cs; cases "tl cs") auto
        with assms show ?thesis by (auto simp: arrow_def)
      qed
      from 1 Cons have ih: "split_arrow (cs @ [w]) =
          butlast (split_arrow cs) @ [last (split_arrow cs) @ [w]]"
        by simp
      obtain x xs where X: "split_arrow cs = x # xs" by (cases "split_arrow cs") auto
      from False t ih Cons show ?thesis
        by (cases xs) (simp_all add: split_arrow_Cons [of c cs] split_arrow_Cons [of c "cs @ [w]"] X)
    qed
  qed
qed

lemma split_arrow_append_spaces:
  assumes "\<not> P 62" "list_all P ws"
  shows "split_arrow (s @ ws) = butlast (split_arrow s) @ [last (split_arrow s) @ ws]"
  using assms(2)
proof (induction ws arbitrary: s)
  case Nil
  then show ?case by simp
next
  case (Cons w ws)
  with assms(1) have w: "w \<noteq> 62" by auto
  from Cons.prems have "list_all P ws" by simp
  from Cons.IH [OF this, of "s @ [w]"]
  have "split_arrow (s @ w # ws) =
      butlast (split_arrow (s @ [w])) @ [last (split_arrow (s @ [w])) @ ws]"
    by simp
  then show ?case by (simp add: split_arrow_snoc [OF w])
qed

lemma ok_arrow_not_space: "unicode_db_ok U \<Longrightarrow> \<not> isspace U 45 \<and> \<not> isspace U 62"
  by (simp add: ok_space_ascii ascii_space_def)

lemma strip_lstrip: "strip U (dropWhile (isspace U) l) = strip U l"
  by (simp add: strip_def)

lemma strip_append_spaces:
  assumes "list_all (isspace U) ws"
  shows "strip U (r @ ws) = strip U r"
proof (cases "\<forall>x\<in>set r. isspace U x")
  case True
  with assms have e: "dropWhile (isspace U) (r @ ws) = []" "dropWhile (isspace U) r = []"
    by (simp_all add: list_all_iff)
  show ?thesis unfolding strip_def by (simp only: e)
next
  case False
  then have a: "dropWhile (isspace U) (r @ ws) = dropWhile (isspace U) r @ ws"
    by (auto simp: dropWhile_append)
  have b: "dropWhile (isspace U) (rev ws @ rev (dropWhile (isspace U) r))
             = dropWhile (isspace U) (rev (dropWhile (isspace U) r))"
    using assms by (intro dropWhile_append2) (simp add: list_all_iff)
  show ?thesis unfolding strip_def a rev_append b ..
qed

lemma split_arrow_strip_two:
  assumes ok: "unicode_db_ok U" and two: "split_arrow line = [l, r]"
  shows "\<exists>l' r'. split_arrow (strip U line) = [l', r'] \<and>
                 strip U l' = strip U l \<and> strip U r' = strip U r"
proof -
  let ?P = "isspace U"
  let ?s1 = "dropWhile ?P line"
  let ?s2 = "rev (dropWhile ?P (rev ?s1))"
  let ?ws = "rev (takeWhile ?P (rev ?s1))"
  let ?X = "split_arrow ?s2"
  from ok_arrow_not_space [OF ok] have n: "\<not> ?P 45" "\<not> ?P 62" by simp_all
  from split_arrow_lstrip [where P = "?P" and s = line, OF n(1)] two
  have s1: "split_arrow ?s1 = [dropWhile ?P l, r]" by simp
  have "?s1 = ?s2 @ ?ws"
    by (metis rev_append rev_rev_ident takeWhile_dropWhile_id)
  moreover have "list_all ?P ?ws" by (auto simp: list_all_iff dest: set_takeWhileD)
  ultimately have "split_arrow ?s1 = butlast ?X @ [last ?X @ ?ws]"
    using split_arrow_append_spaces [where P = "?P" and ws = ?ws and s = ?s2, OF n(2)] by simp
  with s1 have b: "butlast ?X = [dropWhile ?P l]" and e: "last ?X @ ?ws = r" by simp_all
  have "?X = butlast ?X @ [last ?X]" by simp
  with b have X: "?X = [dropWhile ?P l, last ?X]" by simp
  have "strip U (last ?X @ ?ws) = strip U (last ?X)"
    using \<open>list_all ?P ?ws\<close> by (rule strip_append_spaces)
  with e have "strip U (last ?X) = strip U r" by simp
  with X strip_lstrip [of U l] show ?thesis
    unfolding strip_def [of U line] by blast
qed

lemma full_not_short:
  assumes "match_full_pattern U s \<noteq> None"
  shows "match_short_pattern U s = None"
proof (rule ccontr)
  assume "match_short_pattern U s \<noteq> None"
  then obtain m ss ms where "match_short_pattern U s = Some (m, ss, ms)" by auto
  from match_short_SomeD [OF this] obtain t where
    "s = m @ [58] @ ss @ [44] @ ms @ t" "re_end t"
    "length m = 1 \<or> length m = 2" "length ss = 2" "length ms = 3"
    by auto
  then have a: "length s \<le> 10" by (auto simp: re_end_def)
  from assms obtain h m' ss' ms' where "match_full_pattern U s = Some (h, m', ss', ms')" by auto
  from match_full_SomeD [OF this] obtain t' where
    "s = h @ [58] @ m' @ [58] @ ss' @ [44] @ ms' @ t'"
    "full_fields U (h @ [58] @ m' @ [58] @ ss' @ [44] @ ms') h m' ss' ms'"
    by auto
  then have "12 \<le> length s" by (auto simp: full_fields_def dest!: arg_cong [where f = length])
  with a show False by simp
qed

lemma demo_keeps_or_fixes:
  "(if sa_needs_fixing (analyze_single_timestamp U (strip U x))
    then fix_single_timestamp U (strip U x) else strip U x)
   = fix_timestamp_format U (strip U x)"
proof (cases "match_full_pattern U (strip U x) = None")
  case True
  then show ?thesis
    by (auto simp: analyze_single_timestamp_def fix_single_timestamp_def
                   fix_timestamp_format_def Let_def)
next
  case False
  from full_not_short [OF this] False show ?thesis
    by (auto simp: analyze_single_timestamp_def fix_timestamp_format_def Let_def)
qed

lemma split_newline_from_none:
  "10 \<notin> set s \<Longrightarrow> split_newline_from cur s = [rev cur @ s]"
  by (induction s arbitrary: cur) auto

lemma step1_single_line:
  "10 \<notin> set line \<Longrightarrow>
     step1_find_arrow_lines U line = (if contains_arrow line then [(1, strip U line)] else [])"
  by (simp add: step1_find_arrow_lines_def split_newline_def split_newline_from_none)

lemma demo_two_parts:
  assumes ok: "unicode_db_ok U" and two: "split_arrow line = [l, r]"
  shows "\<exists>item. step2_analyze_line U (n, strip U line) = Inr (Some item) \<and>
           a_left_timestamp item = strip U l \<and> a_right_timestamp item = strip U r \<and>
           f_fixed (step3_fix_line U item)
             = fix_timestamp_format U (strip U l) @ py '' --> ''
               @ fix_timestamp_format U (strip U r)"
proof -
  from split_arrow_strip_two [OF ok two] obtain l' r' where
    s: "split_arrow (strip U line) = [l', r']" and e: "strip U l' = strip U l" "strip U r' = strip U r"
    by blast
  from s have c: "contains_arrow (strip U line)" by (simp add: contains_arrow_length)
  let ?item = "\<lparr>a_line_num = n, a_original = strip U line,
                  a_left_timestamp = strip U l, a_right_timestamp = strip U r,
                  a_left_analysis = analyze_single_timestamp U (strip U l),
                  a_right_analysis = analyze_single_timestamp U (strip U r)\<rparr>"
  from c s e have "step2_analyze_line U (n, strip U line) = Inr (Some ?item)"
    by (simp add: step2_analyze_line_def Let_def)
  moreover have "f_fixed (step3_fix_line U ?item)
             = fix_timestamp_format U (strip U l) @ py '' --> ''
               @ fix_timestamp_format U (strip U r)"
    by (simp only: step3_fix_line_def Let_def analyzed_line.select_convs
          fixed_item.select_convs demo_keeps_or_fixes)
  ultimately show ?thesis by (intro exI [of _ ?item]) simp
qed

lemma gui_same:
  "gui_analyze_timestamp_format = analyze_timestamp_format"
  "gui_fix_timestamp_format = fix_timestamp_format"
  "gui_find_and_analyze_timestamp_line = find_and_analyze_timestamp_line"
proof -
  show a: "gui_analyze_timestamp_format = analyze_timestamp_format"
    by (intro ext) (simp add: gui_analyze_timestamp_format_def analyze_timestamp_format_def)
  show f: "gui_fix_timestamp_format = fix_timestamp_format"
    by (intro ext) (simp add: gui_fix_timestamp_format_def fix_timestamp_format_def)
  show "gui_find_and_analyze_timestamp_line = find_and_analyze_timestamp_line"
    by (intro ext)
       (simp only: gui_find_and_analyze_timestamp_line_def
          find_and_analyze_timestamp_line_def a f)
qed

lemma modern_same:
  "modern_analyze_timestamp_format = analyze_timestamp_format"
  "modern_fix_timestamp_format = fix_timestamp_format"
  "modern_find_and_analyze_timestamp_line = find_and_analyze_timestamp_line"
proof -
  show a: "modern_analyze_timestamp_format = analyze_timestamp_format"
    by (intro ext) (simp add: modern_analyze_timestamp_format_def analyze_timestamp_format_def)
  show f: "modern_fix_timestamp_format = fix_timestamp_format"
    by (intro ext) (simp add: modern_fix_timestamp_format_def fix_timestamp_format_def)
  show "modern_find_and_analyze_timestamp_line = find_and_analyze_timestamp_line"
    by (intro ext)
       (simp only: modern_find_and_analyze_timestamp_line_def
          find_and_analyze_timestamp_line_def a f)
qed

lemma web_same:
  "web_analyze_timestamp_format = analyze_timestamp_format"
  "web_fix_timestamp_format = fix_timestamp_format"
  "web_find_and_analyze_timestamp_line = find_and_analyze_timestamp_line"
proof -
  show a: "web_analyze_timestamp_format = analyze_timestamp_format"
    by (intro ext) (simp add: web_analyze_timestamp_format_def analyze_timestamp_format_def)
  show f: "web_fix_timestamp_format = fix_timestamp_format"
    by (intro ext) (simp add: web_fix_timestamp_format_def fix_timestamp_format_def)
  show "web_find_and_analyze_timestamp_line = find_and_analyze_timestamp_line"
    by (intro ext)
       (simp only: web_find_and_analyze_timestamp_line_def
          find_and_analyze_timestamp_line_def a f)
qed

lemma demo_classifier_same:
  "sa_format (analyze_single_timestamp U ts) = format_detected (analyze_timestamp_format U ts) \<and>
   sa_valid (analyze_single_timestamp U ts) = is_valid_srt (analyze_timestamp_format U ts) \<and>
   sa_needs_fixing (analyze_single_timestamp U ts) = ts_needs_fixing (analyze_timestamp_format U ts) \<and>
   sa_has_hours (analyze_single_timestamp U ts) = has_hours (analyze_timestamp_format U ts) \<and>
   fix_single_timestamp U ts = fix_timestamp_format U ts"
  by (cases "match_full_pattern U (strip U ts)"; cases "match_short_pattern U (strip U ts)")
     (auto simp: analyze_single_timestamp_def analyze_timestamp_format_def
        fix_single_timestamp_def fix_timestamp_format_def Let_def)

text \<open>
  C9, as stated, fails: for the line \<open>00:00:05,000-->00:00:07,000\<close>, full on both sides
  and without spaces around the arrow, the command-line script needs no fixing, has no
  fixed line and emits the line as it is, while the demonstration script rebuilds it as
  \<open>00:00:05,000 --> 00:00:07,000\<close>.
\<close>

theorem front_ends_differ:
  "\<not> needs_fixing (find_and_analyze_timestamp_line ascii_db (py ''00:00:05,000-->00:00:07,000'')) \<and>
   fixed_line (find_and_analyze_timestamp_line ascii_db (py ''00:00:05,000-->00:00:07,000'')) = None \<and>
   process_srt_lines ascii_db [py ''00:00:05,000-->00:00:07,000'']
     = Inr (\<lparr>total_lines = 1, timestamp_lines_found = 1, timestamp_lines_fixed = 0,
             issues_found = [], fixes_applied = []\<rparr>, [py ''00:00:05,000-->00:00:07,000'']) \<and>
   map f_fixed (step3_fix_timestamps ascii_db
     (projr (step2_analyze_timestamps ascii_db
        (step1_find_arrow_lines ascii_db (py ''00:00:05,000-->00:00:07,000'')))))
     = [py ''00:00:05,000 --> 00:00:07,000''] \<and>
   step_by_step ascii_db (py ''00:00:05,000-->00:00:07,000'')
     = Inr (py ''00:00:05,000 --> 00:00:07,000'')"
  by code_simp

text \<open>
  C9, amended. The command-line script, the two desktop programs and the web server
  compute the same classification, the same repair and the same line analysis for every
  input. The demonstration script computes the same classification and the same repair
  for every timestamp; a line that contains the arrow is a timestamp line for it as for
  the others, and it hands on the trimmed line; for a line that splits into exactly two
  parts it finds
  the same left and right timestamps and always builds the line
  \<open>repair(left) + " --> " + repair(right)\<close>, which is the fixed line of the other front-ends
  whenever their analysis needs fixing.
\<close>

theorem front_ends_agree:
  assumes ok: "unicode_db_ok U"
  shows "gui_analyze_timestamp_format U ts = analyze_timestamp_format U ts \<and>
         gui_fix_timestamp_format U ts = fix_timestamp_format U ts \<and>
         gui_find_and_analyze_timestamp_line U line = find_and_analyze_timestamp_line U line \<and>
         modern_analyze_timestamp_format U ts = analyze_timestamp_format U ts \<and>
         modern_fix_timestamp_format U ts = fix_timestamp_format U ts \<and>
         modern_find_and_analyze_timestamp_line U line = find_and_analyze_timestamp_line U line \<and>
         web_analyze_timestamp_format U ts = analyze_timestamp_format U ts \<and>
         web_fix_timestamp_format U ts = fix_timestamp_format U ts \<and>
         web_find_and_analyze_timestamp_line U line = find_and_analyze_timestamp_line U line \<and>
         sa_format (analyze_single_timestamp U ts)
           = format_detected (analyze_timestamp_format U ts) \<and>
         sa_valid (analyze_single_timestamp U ts)
           = is_valid_srt (analyze_timestamp_format U ts) \<and>
         sa_needs_fixing (analyze_single_timestamp U ts)
           = ts_needs_fixing (analyze_timestamp_format U ts) \<and>
         sa_has_hours (analyze_single_timestamp U ts)
           = has_hours (analyze_timestamp_format U ts) \<and>
         fix_single_timestamp U ts = fix_timestamp_format U ts \<and>
         (10 \<notin> set line \<and> contains_arrow line \<longrightarrow>
            step1_find_arrow_lines U line = [(1, strip U line)]) \<and>
         (contains_arrow line \<longrightarrow> is_timestamp_line (find_and_analyze_timestamp_line U line)) \<and>
         (contains_arrow line \<and> length (split_arrow line) = 2 \<longrightarrow>
            (\<exists>item. step2_analyze_line U (n, strip U line) = Inr (Some item) \<and>
               a_left_timestamp item = strip U (split_arrow line ! 0) \<and>
               a_right_timestamp item = strip U (split_arrow line ! 1) \<and>
               f_fixed (step3_fix_line U item)
                 = fix_timestamp_format U (strip U (split_arrow line ! 0)) @ py '' --> ''
                   @ fix_timestamp_format U (strip U (split_arrow line ! 1)) \<and>
               (needs_fixing (find_and_analyze_timestamp_line U line) \<longrightarrow>
                  fixed_line (find_and_analyze_timestamp_line U line)
                    = Some (f_fixed (step3_fix_line U item)))))"
proof -
  have 1: "10 \<notin> set line \<and> contains_arrow line \<longrightarrow>
            step1_find_arrow_lines U line = [(1, strip U line)]"
    by (simp add: step1_single_line)
  have 2: "contains_arrow line \<longrightarrow> is_timestamp_line (find_and_analyze_timestamp_line U line)"
    by (cases line rule: find_cases [where U = U])
       (simp_all add: find_arrow_two find_arrow_other)
  have 3: "contains_arrow line \<and> length (split_arrow line) = 2 \<longrightarrow>
            (\<exists>item. step2_analyze_line U (n, strip U line) = Inr (Some item) \<and>
               a_left_timestamp item = strip U (split_arrow line ! 0) \<and>
               a_right_timestamp item = strip U (split_arrow line ! 1) \<and>
               f_fixed (step3_fix_line U item)
                 = fix_timestamp_format U (strip U (split_arrow line ! 0)) @ py '' --> ''
                   @ fix_timestamp_format U (strip U (split_arrow line ! 1)) \<and>
               (needs_fixing (find_and_analyze_timestamp_line U line) \<longrightarrow>
                  fixed_line (find_and_analyze_timestamp_line U line)
                    = Some (f_fixed (step3_fix_line U item))))"
  proof
    assume a: "contains_arrow line \<and> length (split_arrow line) = 2"
    then obtain l r where two: "split_arrow line = [l, r]" by (auto simp: length2_conv)
    from demo_two_parts [OF ok two, of n] obtain item where
      i: "step2_analyze_line U (n, strip U line) = Inr (Some item)"
         "a_left_timestamp item = strip U l" "a_right_timestamp item = strip U r"
         "f_fixed (step3_fix_line U item)
             = fix_timestamp_format U (strip U l) @ py '' --> ''
               @ fix_timestamp_format U (strip U r)"
      by blast
    from a two have "needs_fixing (find_and_analyze_timestamp_line U line) \<longrightarrow>
        fixed_line (find_and_analyze_timestamp_line U line)
          = Some (fix_timestamp_format U (strip U l) @ py '' --> ''
               @ fix_timestamp_format U (strip U r))"
      by (simp add: find_arrow_two)
    with i two show "\<exists>item. step2_analyze_line U (n, strip U line) = Inr (Some item) \<and>
               a_left_timestamp item = strip U (split_arrow line ! 0) \<and>
               a_right_timestamp item = strip U (split_arrow line ! 1) \<and>
               f_fixed (step3_fix_line U item)
                 = fix_timestamp_format U (strip U (split_arrow line ! 0)) @ py '' --> ''
                   @ fix_timestamp_format U (strip U (split_arrow line ! 1)) \<and>
               (needs_fixing (find_and_analyze_timestamp_line U line) \<longrightarrow>
                  fixed_line (find_and_analyze_timestamp_line U line)
                    = Some (f_fixed (step3_fix_line U item)))"
      by (intro exI [of _ item]) simp
  qed
  from 1 2 3 demo_classifier_same [of U ts] show ?thesis
    by (simp only: gui_same modern_same web_same simp_thms)
qed

theorem front_ends_agree_witness:
  "unicode_db_ok ascii_db \<and>
   10 \<notin> set (py '' 1:30,500 --> 01:31,500 '') \<and>
   contains_arrow (py '' 1:30,500 --> 01:31,500 '') \<and>
   length (split_arrow (py '' 1:30,500 --> 01:31,500 '')) = 2 \<and>
   needs_fixing (find_and_analyze_timestamp_line ascii_db (py '' 1:30,500 --> 01:31,500 '')) \<and>
   fixed_line (find_and_analyze_timestamp_line ascii_db (py '' 1:30,500 --> 01:31,500 ''))
     = Some (py ''00:01:30,500 --> 00:01:31,500'') \<and>
   step1_find_arrow_lines ascii_db (py '' 1:30,500 --> 01:31,500 '')
     = [(1, strip ascii_db (py '' 1:30,500 --> 01:31,500 ''))] \<and>
   (\<exists>item. step2_analyze_line ascii_db (1, strip ascii_db (py '' 1:30,500 --> 01:31,500 ''))
             = Inr (Some item) \<and>
           f_fixed (step3_fix_line ascii_db item) = py ''00:01:30,500 --> 00:01:31,500'') \<and>
   web_find_and_analyze_timestamp_line ascii_db (py '' 1:30,500 --> 01:31,500 '')
     = find_and_analyze_timestamp_line ascii_db (py '' 1:30,500 --> 01:31,500 '')"
proof -
  let ?L = "py '' 1:30,500 --> 01:31,500 ''"
  have a: "10 \<notin> set ?L" by code_simp
  have b: "contains_arrow ?L" by code_simp
  have c: "length (split_arrow ?L) = 2" by code_simp
  have d: "needs_fixing (find_and_analyze_timestamp_line ascii_db ?L)" by code_simp
  have e: "fixed_line (find_and_analyze_timestamp_line ascii_db ?L)
     = Some (py ''00:01:30,500 --> 00:01:31,500'')"
    by code_simp
  note t = front_ends_agree [OF ascii_db_ok, of "[]" ?L 1]
  from t a b have s1: "step1_find_arrow_lines ascii_db ?L = [(1, strip ascii_db ?L)]"
    by simp
  from t b c d e have s2: "\<exists>item. step2_analyze_line ascii_db (1, strip ascii_db ?L)
             = Inr (Some item) \<and>
           f_fixed (step3_fix_line ascii_db item) = py ''00:01:30,500 --> 00:01:31,500''"
    by (metis option.inject)
  from t have w: "web_find_and_analyze_timestamp_line ascii_db ?L
     = find_and_analyze_timestamp_line ascii_db ?L"
    by blast
  from a b c d e s1 s2 w ascii_db_ok show ?thesis by blast
qed

end
